theory Spec2Isabelle
  imports Complex_Main "HOL-Library.Char_ord" "HOL-Library.List_Lexorder" "HOL-Library.Word"
begin

section \<open>Strings: the Python string methods used by \<open>to_snake\<close>\<close>

text \<open>
  Column labels are modelled as ASCII strings. \<open>str.isalnum\<close>, \<open>str.lower\<close> and the
  whitespace test of \<open>str.strip\<close> and \<open>str.split\<close> are given on character codes
  below 128; Python's Unicode behaviour above that range is outside the model.
\<close>

definition isalnum :: "char \<Rightarrow> bool" where
  "isalnum ch =
     (let n = (of_char ch :: int)
      in (48 \<le> n \<and> n \<le> 57) \<or> (65 \<le> n \<and> n \<le> 90) \<or> (97 \<le> n \<and> n \<le> 122))"

definition isspace :: "char \<Rightarrow> bool" where
  "isspace ch =
     (let n = (of_char ch :: int)
      in (9 \<le> n \<and> n \<le> 13) \<or> (28 \<le> n \<and> n \<le> 32))"

definition lower_char :: "char \<Rightarrow> char" where
  "lower_char ch =
     (let n = (of_char ch :: int)
      in if 65 \<le> n \<and> n \<le> 90 then char_of (n + 32) else ch)"

definition str_lower :: "string \<Rightarrow> string" where
  "str_lower s = map lower_char s"

definition str_strip :: "string \<Rightarrow> string" where
  "str_strip s = rev (dropWhile isspace (rev (dropWhile isspace s)))"

text \<open>
  \<open>s.replace(old, new)\<close> for a non-empty \<open>old\<close>: a single scan from the left that
  replaces each occurrence and carries on behind it, so replaced text is never looked at
  again.
\<close>

function str_replace :: "string \<Rightarrow> string \<Rightarrow> string \<Rightarrow> string" where
  "str_replace old new s =
     (if old = [] \<or> s = [] then s
      else if take (length old) s = old
           then new @ str_replace old new (drop (length old) s)
           else hd s # str_replace old new (tl s))"
  by pat_completeness auto
termination
  by (relation "measure (\<lambda>(old, new, s). length s)") auto

declare str_replace.simps [simp del]

text \<open>\<open>s.split()\<close>: the maximal runs of non-whitespace characters, in order.\<close>

fun split_from :: "string \<Rightarrow> string \<Rightarrow> string list" where
  "split_from cur [] = (if cur = [] then [] else [cur])"
| "split_from cur (ch # s) =
     (if isspace ch
      then (if cur = [] then split_from [] s else cur # split_from [] s)
      else split_from (cur @ [ch]) s)"

definition str_split :: "string \<Rightarrow> string list" where
  "str_split s = split_from [] s"

fun str_join :: "string \<Rightarrow> string list \<Rightarrow> string" where
  "str_join sep [] = []"
| "str_join sep [p] = p"
| "str_join sep (p # q # ps) = p @ sep @ str_join sep (q # ps)"

text \<open>
  \<^verbatim>\<open>
  def to_snake(s: str) -> str:
      s = s.strip().replace("/", " ").replace("-", " ").replace(".", " ")
      s = "".join(ch if ch.isalnum() or ch == " " else "_" for ch in s)
      parts = [p for p in s.replace("__","_").lower().split() if p]
      return "_".join(parts)
  \<close>
\<close>

definition to_snake :: "string \<Rightarrow> string" where
  "to_snake s =
     (let s1 = str_replace ''.'' '' '' (str_replace ''-'' '' '' (str_replace ''/'' '' '' (str_strip s)));
          s2 = map (\<lambda>ch. if isalnum ch \<or> ch = CHR '' '' then ch else CHR ''_'') s1;
          parts = filter (\<lambda>p. p \<noteq> []) (str_split (str_lower (str_replace ''__'' ''_'' s2)))
      in str_join ''_'' parts)"

section \<open>Numbers\<close>

text \<open>
  A cell of a float64 column is an \<open>fl\<close>: a finite value, an infinity or NaN (the sign
  of zero is not represented). A cell of an int64 column is a 64-bit word read as a signed
  integer, so that int64 addition wraps around as numpy's does.
\<close>

datatype fl = Fin real | PInf | NInf | NaN

type_synonym i64 = "64 word"

type_synonym date = "int \<times> int \<times> int"

section \<open>The library functions the script calls\<close>

text \<open>
  Four pandas and numpy functions are parameters of the model: the text parser of
  \<open>pd.to_numeric\<close> (\<open>None\<close> when the text is not a number), \<open>pd.to_datetime\<close> with
  \<open>errors="coerce"\<close> on a column of strings (\<open>None\<close> is \<open>NaT\<close>), the generator
  behind \<open>DataFrame.sample\<close> (\<open>rng_choice seed n k\<close> is the row positions drawn
  from \<open>n\<close> rows by a generator seeded with \<open>seed\<close>), and the rounding of a real
  result to float64 (\<open>fl_round\<close>, to the nearest float, or to an infinity on overflow).
\<close>

record lib =
  pd_to_numeric :: "string \<Rightarrow> fl option"
  pd_to_datetime :: "string list \<Rightarrow> date option list"
  rng_choice :: "nat \<Rightarrow> nat \<Rightarrow> nat \<Rightarrow> nat list"
  fl_round :: "real \<Rightarrow> fl"

text \<open>
  What the theorems below assume of the library: \<open>to_datetime\<close> returns one entry per
  input string, and drawing \<open>k \<le> n\<close> rows without replacement returns \<open>k\<close> distinct
  positions below \<open>n\<close>.
\<close>

definition lib_ok :: "lib \<Rightarrow> bool" where
  "lib_ok L =
     ((\<forall>xs. length (pd_to_datetime L xs) = length xs) \<and>
      (\<forall>seed n k. k \<le> n \<longrightarrow>
         length (rng_choice L seed n k) = k \<and> distinct (rng_choice L seed n k) \<and>
         set (rng_choice L seed n k) \<subseteq> {..<n}))"

section \<open>Arithmetic on cells\<close>

text \<open>
  The sum of two floats is the rounded real sum; \<open>i2f\<close> is the conversion of an int64
  to float64, rounded as well. The quotient of two floats is idealised as the exact
  quotient. \<open>feq0\<close> is the comparison \<open>x == 0\<close>, \<open>fgt\<close> is \<open>x > y\<close>; both are false
  on NaN.
\<close>

fun fadd :: "lib \<Rightarrow> fl \<Rightarrow> fl \<Rightarrow> fl" where
  "fadd L NaN y = NaN"
| "fadd L x NaN = NaN"
| "fadd L (Fin a) (Fin b) = fl_round L (a + b)"
| "fadd L PInf NInf = NaN"
| "fadd L NInf PInf = NaN"
| "fadd L PInf y = PInf"
| "fadd L NInf y = NInf"
| "fadd L (Fin a) y = y"

definition i2f :: "lib \<Rightarrow> i64 \<Rightarrow> fl" where
  "i2f L w = fl_round L (of_int (sint w))"

fun fdiv :: "fl \<Rightarrow> fl \<Rightarrow> fl" where
  "fdiv NaN y = NaN"
| "fdiv x NaN = NaN"
| "fdiv (Fin a) (Fin b) =
     (if b \<noteq> 0 then Fin (a / b)
      else if a = 0 then NaN else if 0 < a then PInf else NInf)"
| "fdiv (Fin a) y = Fin 0"
| "fdiv PInf (Fin b) = (if 0 \<le> b then PInf else NInf)"
| "fdiv NInf (Fin b) = (if 0 \<le> b then NInf else PInf)"
| "fdiv x y = NaN"

fun feq0 :: "fl \<Rightarrow> bool" where
  "feq0 (Fin a) = (a = 0)"
| "feq0 x = False"

fun fgt :: "fl \<Rightarrow> fl \<Rightarrow> bool" where
  "fgt NaN y = False"
| "fgt x NaN = False"
| "fgt (Fin a) (Fin b) = (b < a)"
| "fgt PInf PInf = False"
| "fgt PInf y = True"
| "fgt x PInf = False"
| "fgt NInf y = False"
| "fgt x NInf = True"

section \<open>Data frames\<close>

text \<open>
  A column has a dtype and its cells: float64 (\<open>NumCol\<close>), int64 (\<open>I64Col\<close>), object
  (\<open>ObjCol\<close>: text, with \<open>None\<close> for a missing field), the nullable \<open>Int64\<close>
  (\<open>IntCol\<close>, \<open>None\<close> is \<open><NA>\<close>), datetime64 (\<open>DateCol\<close>, \<open>None\<close> is \<open>NaT\<close>) and
  bool. A table is the list of its labelled columns in column order. \<open>read_csv\<close> yields
  an \<open>I64Col\<close> for a column of integers without an empty field, a \<open>NumCol\<close> for other
  numbers (an empty field is NaN) and an \<open>ObjCol\<close> for text.
\<close>

datatype column =
    NumCol "fl list"
  | I64Col "i64 list"
  | ObjCol "string option list"
  | IntCol "int option list"
  | DateCol "date option list"
  | BoolCol "bool list"

type_synonym table = "(string \<times> column) list"

text \<open>
  The errors the script can stop with. \<open>NotModelled\<close> marks a pandas call on an
  argument whose behaviour this model does not describe (a duplicated column label, or
  a dtype the pipeline never passes to that call).
\<close>

datatype error = ValueError | TypeError | KeyError | NotModelled

definition bindE :: "error + 'a \<Rightarrow> ('a \<Rightarrow> error + 'b) \<Rightarrow> error + 'b" where
  "bindE m f = (case m of Inl e \<Rightarrow> Inl e | Inr x \<Rightarrow> f x)"

text \<open>\<open>.astype(float)\<close> of a numeric series.\<close>

definition astype_float :: "lib \<Rightarrow> column \<Rightarrow> error + fl list" where
  "astype_float L col =
     (case col of
        NumCol xs \<Rightarrow> Inr xs
      | I64Col ws \<Rightarrow> Inr (map (i2f L) ws)
      | _ \<Rightarrow> Inl NotModelled)"

text \<open>
  \<^verbatim>\<open>
  def safe_div(num, den):
      num = num.astype(float)
      den = den.astype(float)
      with np.errstate(divide="ignore", invalid="ignore"):
          return np.where(den == 0, np.nan, num / den)
  \<close>
  The quotient is computed at every position and then masked.
\<close>

definition np_where :: "bool list \<Rightarrow> fl \<Rightarrow> fl list \<Rightarrow> fl list" where
  "np_where cond a ys = map2 (\<lambda>c y. if c then a else y) cond ys"

definition safe_div :: "lib \<Rightarrow> column \<Rightarrow> column \<Rightarrow> error + fl list" where
  "safe_div L num den =
     bindE (astype_float L num) (\<lambda>num.
     bindE (astype_float L den) (\<lambda>den.
       Inr (np_where (map feq0 den) NaN (map2 fdiv num den))))"

section \<open>Reading and assigning columns\<close>

definition columns :: "table \<Rightarrow> string list" where
  "columns df = map fst df"

fun col_len :: "column \<Rightarrow> nat" where
  "col_len (NumCol xs) = length xs"
| "col_len (I64Col xs) = length xs"
| "col_len (ObjCol xs) = length xs"
| "col_len (IntCol xs) = length xs"
| "col_len (DateCol xs) = length xs"
| "col_len (BoolCol xs) = length xs"

text \<open>\<open>len(df)\<close>. A frame read from a file has at least one column.\<close>

definition nrows :: "table \<Rightarrow> nat" where
  "nrows df = (case df of [] \<Rightarrow> 0 | (c, col) # rest \<Rightarrow> col_len col)"

text \<open>
  \<open>df[c]\<close> as a series. For a label that occurs more than once pandas returns a frame
  instead, and what the callers then do with it is not modelled.
\<close>

definition getcol :: "table \<Rightarrow> string \<Rightarrow> error + column" where
  "getcol df c =
     (case filter (\<lambda>kv. fst kv = c) df of
        [] \<Rightarrow> Inl KeyError
      | [kv] \<Rightarrow> Inr (snd kv)
      | kv # kv' # rest \<Rightarrow> Inl NotModelled)"

text \<open>
  \<open>df[c] = v\<close>: an existing label keeps its place and gets the new values, a new label
  is appended as the last column. The values assigned by the script are computed from
  columns of the same frame, so they have its length.
\<close>

definition setcol :: "table \<Rightarrow> string \<Rightarrow> column \<Rightarrow> table" where
  "setcol df c v =
     (if c \<in> set (columns df)
      then map (\<lambda>kv. if fst kv = c then (fst kv, v) else kv) df
      else df @ [(c, v)])"

text \<open>A \<open>for\<close> loop whose body updates the frame and may raise.\<close>

fun for_each :: "('a \<Rightarrow> table \<Rightarrow> error + table) \<Rightarrow> 'a list \<Rightarrow> table \<Rightarrow> error + table" where
  "for_each body [] df = Inr df"
| "for_each body (x # xs) df =
     (case body x df of Inl e \<Rightarrow> Inl e | Inr df' \<Rightarrow> for_each body xs df')"

section \<open>Step 2: column names\<close>

text \<open>\<^verbatim>\<open>df.columns = [to_snake(c) for c in df.columns]\<close>\<close>

definition rename_columns :: "table \<Rightarrow> table" where
  "rename_columns df = map (\<lambda>kv. (to_snake (fst kv), snd kv)) df"

section \<open>Step 3: types and missing values\<close>

definition count_cols :: "string list" where
  "count_cols =
     [''arr_flights'', ''arr_del15'', ''carrier_ct'', ''weather_ct'', ''nas_ct'',
      ''security_ct'', ''late_aircraft_ct'', ''arr_cancelled'', ''arr_diverted'']"

definition delay_min_cols :: "string list" where
  "delay_min_cols =
     [''arr_delay'', ''carrier_delay'', ''weather_delay'', ''nas_delay'',
      ''security_delay'', ''late_aircraft_delay'']"

text \<open>
  \<open>pd.to_numeric(s, errors="coerce")\<close> on a column as read from the file: numbers stay
  (an int64 column stays int64), text is parsed, and text that does not parse or a
  missing field becomes NaN. An object column read from a file has a cell that is not
  a number, so its coerced column is float64. \<open>.fillna(0)\<close> then replaces NaN by zero;
  an int64 column has no NaN.
\<close>

definition to_numeric_cell :: "lib \<Rightarrow> string option \<Rightarrow> fl" where
  "to_numeric_cell L s =
     (case s of None \<Rightarrow> NaN
      | Some w \<Rightarrow> (case pd_to_numeric L w of None \<Rightarrow> NaN | Some x \<Rightarrow> x))"

definition to_numeric :: "lib \<Rightarrow> column \<Rightarrow> error + column" where
  "to_numeric L col =
     (case col of
        NumCol xs \<Rightarrow> Inr (NumCol xs)
      | I64Col ws \<Rightarrow> Inr (I64Col ws)
      | ObjCol ss \<Rightarrow> Inr (NumCol (map (to_numeric_cell L) ss))
      | _ \<Rightarrow> Inl NotModelled)"

definition fillna0 :: "column \<Rightarrow> error + column" where
  "fillna0 col =
     (case col of
        NumCol xs \<Rightarrow> Inr (NumCol (map (\<lambda>x. if x = NaN then Fin 0 else x) xs))
      | I64Col ws \<Rightarrow> Inr (I64Col ws)
      | _ \<Rightarrow> Inl NotModelled)"

text \<open>
  \<^verbatim>\<open>
  for col in count_cols + delay_min_cols:
      if col in df.columns:
          df[col] = pd.to_numeric(df[col], errors="coerce").fillna(0)
  \<close>
\<close>

definition coerce_count :: "lib \<Rightarrow> string \<Rightarrow> table \<Rightarrow> error + table" where
  "coerce_count L col df =
     (if col \<in> set (columns df)
      then bindE (getcol df col) (\<lambda>s.
           bindE (to_numeric L s) (\<lambda>n.
           bindE (fillna0 n) (\<lambda>filled.
             Inr (setcol df col filled))))
      else Inr df)"

definition coerce_counts :: "lib \<Rightarrow> table \<Rightarrow> error + table" where
  "coerce_counts L df = for_each (coerce_count L) (count_cols @ delay_min_cols) df"

text \<open>
  \<open>.astype("Int64")\<close>. On floats: NaN becomes \<open><NA>\<close>, a float that is an integer of
  the int64 range becomes that integer, and any other value makes the whole cast raise
  TypeError (cannot safely cast non-equivalent float64 to int64). An int64 column keeps
  its values.
\<close>

fun int64_of :: "fl \<Rightarrow> int option option" where
  "int64_of NaN = Some None"
| "int64_of (Fin r) =
     (if of_int \<lfloor>r\<rfloor> = r \<and> - (2 ^ 63) \<le> \<lfloor>r\<rfloor> \<and> \<lfloor>r\<rfloor> < 2 ^ 63
      then Some (Some \<lfloor>r\<rfloor>) else None)"
| "int64_of x = None"

definition astype_Int64 :: "column \<Rightarrow> error + int option list" where
  "astype_Int64 col =
     (case col of
        NumCol xs \<Rightarrow>
          (case those (map int64_of xs) of None \<Rightarrow> Inl TypeError | Some ys \<Rightarrow> Inr ys)
      | I64Col ws \<Rightarrow> Inr (map (\<lambda>w. Some (sint w)) ws)
      | _ \<Rightarrow> Inl NotModelled)"

text \<open>
  \<^verbatim>\<open>
  for col in ["year","month"]:
      if col in df.columns:
          df[col] = pd.to_numeric(df[col], errors="coerce").astype("Int64")
  \<close>
\<close>

definition coerce_ym :: "lib \<Rightarrow> string \<Rightarrow> table \<Rightarrow> error + table" where
  "coerce_ym L col df =
     (if col \<in> set (columns df)
      then bindE (getcol df col) (\<lambda>s.
           bindE (to_numeric L s) (\<lambda>n.
           bindE (astype_Int64 n) (\<lambda>ys.
             Inr (setcol df col (IntCol ys)))))
      else Inr df)"

definition coerce_year_month :: "lib \<Rightarrow> table \<Rightarrow> error + table" where
  "coerce_year_month L df = for_each (coerce_ym L) [''year'', ''month''] df"

section \<open>Step 4: the derived columns\<close>

text \<open>\<open>.astype("int")\<close> on a nullable integer column raises ValueError when a cell is \<open><NA>\<close>.\<close>

definition astype_int :: "column \<Rightarrow> error + int list" where
  "astype_int col =
     (case col of
        IntCol xs \<Rightarrow> (case those xs of None \<Rightarrow> Inl ValueError | Some ys \<Rightarrow> Inr ys)
      | _ \<Rightarrow> Inl NotModelled)"

text \<open>\<open>str\<close> of an integer, and \<open>strftime("%Y-%m")\<close> of a timestamp (its year has four digits).\<close>

definition digit_char :: "int \<Rightarrow> char" where
  "digit_char d = char_of (48 + d)"

function str_digits :: "int \<Rightarrow> string" where
  "str_digits n =
     (if n < 10 then [digit_char n] else str_digits (n div 10) @ [digit_char (n mod 10)])"
  by pat_completeness auto
termination
  by (relation "measure nat") auto

declare str_digits.simps [simp del]

definition str_int :: "int \<Rightarrow> string" where
  "str_int i = (if i < 0 then CHR ''-'' # str_digits (- i) else str_digits i)"

definition zfill :: "nat \<Rightarrow> string \<Rightarrow> string" where
  "zfill w s = replicate (w - length s) CHR ''0'' @ s"

fun strftime_Ym :: "date \<Rightarrow> string" where
  "strftime_Ym (y, m, d) = zfill 4 (str_int y) @ ''-'' @ zfill 2 (str_int m)"

definition dt_strftime_Ym :: "column \<Rightarrow> error + string option list" where
  "dt_strftime_Ym col =
     (case col of
        DateCol ds \<Rightarrow> Inr (map (map_option strftime_Ym) ds)
      | _ \<Rightarrow> Inl NotModelled)"

text \<open>
  \<^verbatim>\<open>
  if {"year","month"}.issubset(df.columns):
      df["year_month"] = pd.to_datetime(
          df["year"].astype("int").astype(str) + "-" +
          df["month"].astype("int").astype(str) + "-01",
          errors="coerce"
      )
      df["year_month_key"] = df["year_month"].dt.strftime("%Y-%m")
  \<close>
\<close>

definition derive_year_month :: "lib \<Rightarrow> table \<Rightarrow> error + table" where
  "derive_year_month L df =
     (if set [''year'', ''month''] \<subseteq> set (columns df)
      then bindE (getcol df ''year'') (\<lambda>yc.
           bindE (astype_int yc) (\<lambda>ys.
           bindE (getcol df ''month'') (\<lambda>mc.
           bindE (astype_int mc) (\<lambda>ms.
             let strs = map2 (\<lambda>y m. str_int y @ ''-'' @ str_int m @ ''-01'') ys ms;
                 df1 = setcol df ''year_month'' (DateCol (pd_to_datetime L strs))
             in bindE (getcol df1 ''year_month'') (\<lambda>ym.
                bindE (dt_strftime_Ym ym) (\<lambda>keys.
                  Inr (setcol df1 ''year_month_key'' (ObjCol keys))))))))
      else Inr df)"

text \<open>
  \<^verbatim>\<open>
  if {"arr_del15","arr_flights"}.issubset(df.columns):
      df["delayed_rate"] = safe_div(df["arr_del15"], df["arr_flights"])
  \<close>
\<close>

definition derive_delayed_rate :: "lib \<Rightarrow> table \<Rightarrow> error + table" where
  "derive_delayed_rate L df =
     (if set [''arr_del15'', ''arr_flights''] \<subseteq> set (columns df)
      then bindE (getcol df ''arr_del15'') (\<lambda>num.
           bindE (getcol df ''arr_flights'') (\<lambda>den.
           bindE (safe_div L num den) (\<lambda>r.
             Inr (setcol df ''delayed_rate'' (NumCol r)))))
      else Inr df)"

text \<open>
  The sum \<open>a + b\<close> of two numeric series of one frame: in int64, wrapping around, when
  both are int64, and in float64 otherwise.
\<close>

definition series_add :: "lib \<Rightarrow> column \<Rightarrow> column \<Rightarrow> error + column" where
  "series_add L a b =
     (case (a, b) of
        (I64Col xs, I64Col ys) \<Rightarrow> Inr (I64Col (map2 (+) xs ys))
      | _ \<Rightarrow> bindE (astype_float L a) (\<lambda>xs.
             bindE (astype_float L b) (\<lambda>ys.
               Inr (NumCol (map2 (fadd L) xs ys)))))"

text \<open>
  \<^verbatim>\<open>
  if {"arr_flights","arr_cancelled","arr_diverted"}.issubset(df.columns):
      total_handled = df["arr_flights"] + df["arr_cancelled"] + df["arr_diverted"]
      df["cancellation_rate"] = safe_div(df["arr_cancelled"], total_handled)
  \<close>
\<close>

definition derive_cancellation_rate :: "lib \<Rightarrow> table \<Rightarrow> error + table" where
  "derive_cancellation_rate L df =
     (if set [''arr_flights'', ''arr_cancelled'', ''arr_diverted''] \<subseteq> set (columns df)
      then bindE (getcol df ''arr_flights'') (\<lambda>fl.
           bindE (getcol df ''arr_cancelled'') (\<lambda>cn.
           bindE (series_add L fl cn) (\<lambda>s1.
           bindE (getcol df ''arr_diverted'') (\<lambda>dv.
           bindE (series_add L s1 dv) (\<lambda>total_handled.
           bindE (getcol df ''arr_cancelled'') (\<lambda>num.
           bindE (safe_div L num total_handled) (\<lambda>r.
             Inr (setcol df ''cancellation_rate'' (NumCol r)))))))))
      else Inr df)"

text \<open>
  \<^verbatim>\<open>
  if {"arr_delay","arr_del15"}.issubset(df.columns):
      df["avg_delay_min_per_delayed_flight"] = safe_div(df["arr_delay"], df["arr_del15"])
  \<close>
\<close>

definition derive_avg_delay :: "lib \<Rightarrow> table \<Rightarrow> error + table" where
  "derive_avg_delay L df =
     (if set [''arr_delay'', ''arr_del15''] \<subseteq> set (columns df)
      then bindE (getcol df ''arr_delay'') (\<lambda>num.
           bindE (getcol df ''arr_del15'') (\<lambda>den.
           bindE (safe_div L num den) (\<lambda>r.
             Inr (setcol df ''avg_delay_min_per_delayed_flight'' (NumCol r)))))
      else Inr df)"

definition causes :: "string list" where
  "causes = [''carrier'', ''weather'', ''nas'', ''security'', ''late_aircraft'']"

text \<open>
  \<^verbatim>\<open>
  for cause in ["carrier","weather","nas","security","late_aircraft"]:
      ct = f"{cause}_ct"
      if {"arr_del15", ct}.issubset(df.columns):
          df[f"{cause}_cause_share_ct"] = safe_div(df[ct], df["arr_del15"])
  \<close>
\<close>

definition derive_cause_share_ct :: "lib \<Rightarrow> string \<Rightarrow> table \<Rightarrow> error + table" where
  "derive_cause_share_ct L cause df =
     (let ct = cause @ ''_ct''
      in if set [''arr_del15'', ct] \<subseteq> set (columns df)
         then bindE (getcol df ct) (\<lambda>num.
              bindE (getcol df ''arr_del15'') (\<lambda>den.
              bindE (safe_div L num den) (\<lambda>r.
                Inr (setcol df (cause @ ''_cause_share_ct'') (NumCol r)))))
         else Inr df)"

text \<open>
  \<^verbatim>\<open>
  for cause in ["carrier","weather","nas","security","late_aircraft"]:
      dmin = f"{cause}_delay"
      if {"arr_delay", dmin}.issubset(df.columns):
          df[f"{cause}_cause_share_min"] = safe_div(df[dmin], df["arr_delay"])
  \<close>
\<close>

definition derive_cause_share_min :: "lib \<Rightarrow> string \<Rightarrow> table \<Rightarrow> error + table" where
  "derive_cause_share_min L cause df =
     (let dmin = cause @ ''_delay''
      in if set [''arr_delay'', dmin] \<subseteq> set (columns df)
         then bindE (getcol df dmin) (\<lambda>num.
              bindE (getcol df ''arr_delay'') (\<lambda>den.
              bindE (safe_div L num den) (\<lambda>r.
                Inr (setcol df (cause @ ''_cause_share_min'') (NumCol r)))))
         else Inr df)"

text \<open>Section 4 of the script, in its order.\<close>

definition derive_kpis :: "lib \<Rightarrow> table \<Rightarrow> error + table" where
  "derive_kpis L df =
     bindE (derive_year_month L df) (\<lambda>df.
     bindE (derive_delayed_rate L df) (\<lambda>df.
     bindE (derive_cancellation_rate L df) (\<lambda>df.
     bindE (derive_avg_delay L df) (\<lambda>df.
     bindE (for_each (derive_cause_share_ct L) causes df) (\<lambda>df.
       for_each (derive_cause_share_min L) causes df)))))"

section \<open>Step 5: the quality check\<close>

text \<open>\<open>df[[c1, ..., cn]]\<close>: the sub-frame of the listed columns.\<close>

fun select_cols :: "table \<Rightarrow> string list \<Rightarrow> error + table" where
  "select_cols df [] = Inr []"
| "select_cols df (c # cs) =
     (case getcol df c of Inl e \<Rightarrow> Inl e
      | Inr col \<Rightarrow> (case select_cols df cs of Inl e \<Rightarrow> Inl e
                    | Inr rest \<Rightarrow> Inr ((c, col) # rest)))"

text \<open>
  \<open>.sum(axis=1)\<close> of a numeric frame of \<open>n\<close> rows: the sum of each row, over the
  columns from left to right. When every column is int64 the sums are int64 and wrap
  around; otherwise every cell is first converted to float64, a NaN cell counts as zero
  (\<open>skipna\<close> is on by default) and the sums are float64.
\<close>

fun int_cols :: "table \<Rightarrow> i64 list list option" where
  "int_cols [] = Some []"
| "int_cols (kv # rest) =
     (case snd kv of
        I64Col ws \<Rightarrow> (case int_cols rest of None \<Rightarrow> None | Some wss \<Rightarrow> Some (ws # wss))
      | _ \<Rightarrow> None)"

fun float_cols :: "lib \<Rightarrow> table \<Rightarrow> error + fl list list" where
  "float_cols L [] = Inr []"
| "float_cols L (kv # rest) =
     (case astype_float L (snd kv) of Inl e \<Rightarrow> Inl e
      | Inr xs \<Rightarrow> (case float_cols L rest of Inl e \<Rightarrow> Inl e | Inr xss \<Rightarrow> Inr (xs # xss)))"

definition nan_to_zero :: "fl \<Rightarrow> fl" where
  "nan_to_zero x = (if x = NaN then Fin 0 else x)"

definition sum_axis1 :: "lib \<Rightarrow> nat \<Rightarrow> table \<Rightarrow> error + column" where
  "sum_axis1 L n sub =
     (case int_cols sub of
        Some (ws # wss) \<Rightarrow> Inr (I64Col (foldl (map2 (+)) ws wss))
      | _ \<Rightarrow>
          bindE (float_cols L sub) (\<lambda>xss.
            case map (map nan_to_zero) xss of
              [] \<Rightarrow> Inr (NumCol (replicate n (Fin 0)))
            | xs # rest \<Rightarrow> Inr (NumCol (foldl (map2 (fadd L)) xs rest))))"

text \<open>
  \<open>a > b\<close> on two numeric series: on the integers when both are int64, and on float64
  otherwise.
\<close>

definition series_gt :: "lib \<Rightarrow> column \<Rightarrow> column \<Rightarrow> error + bool list" where
  "series_gt L a b =
     (case (a, b) of
        (I64Col xs, I64Col ys) \<Rightarrow> Inr (map2 (\<lambda>x y. sint y < sint x) xs ys)
      | _ \<Rightarrow> bindE (astype_float L a) (\<lambda>xs.
             bindE (astype_float L b) (\<lambda>ys.
               Inr (map2 fgt xs ys))))"

definition bool_sum :: "column \<Rightarrow> error + int" where
  "bool_sum col =
     (case col of
        BoolCol bs \<Rightarrow> Inr (int (length (filter (\<lambda>b. b) bs)))
      | _ \<Rightarrow> Inl NotModelled)"

definition req :: "string list" where
  "req = [''carrier_ct'', ''weather_ct'', ''nas_ct'', ''security_ct'', ''late_aircraft_ct'',
          ''arr_del15'']"

text \<open>
  \<^verbatim>\<open>
  checks = {}
  req = ["carrier_ct","weather_ct","nas_ct","security_ct","late_aircraft_ct","arr_del15"]
  if all(c in df.columns for c in req):
      cause_sum = df[["carrier_ct","weather_ct","nas_ct","security_ct","late_aircraft_ct"]].sum(axis=1)
      df["cause_counts_exceed_delayed_flag"] = cause_sum > df["arr_del15"]
      checks["rows_where_cause_counts_exceed_delayed"] = int(df["cause_counts_exceed_delayed_flag"].sum())
  \<close>
\<close>

definition quality_check :: "lib \<Rightarrow> table \<Rightarrow> error + table \<times> (string \<times> int) list" where
  "quality_check L df =
     (if list_all (\<lambda>c. c \<in> set (columns df)) req
      then bindE (select_cols df
                    [''carrier_ct'', ''weather_ct'', ''nas_ct'', ''security_ct'',
                     ''late_aircraft_ct'']) (\<lambda>sub.
           bindE (sum_axis1 L (nrows df) sub) (\<lambda>cause_sum.
           bindE (getcol df ''arr_del15'') (\<lambda>del15.
           bindE (series_gt L cause_sum del15) (\<lambda>flag.
             let df1 = setcol df ''cause_counts_exceed_delayed_flag'' (BoolCol flag)
             in bindE (getcol df1 ''cause_counts_exceed_delayed_flag'') (\<lambda>f.
                bindE (bool_sum f) (\<lambda>n.
                  Inr (df1, [(''rows_where_cause_counts_exceed_delayed'', n)])))))))
      else Inr (df, []))"

section \<open>Step 6: the artifacts\<close>

fun select_rows :: "nat list \<Rightarrow> column \<Rightarrow> column" where
  "select_rows idx (NumCol xs) = NumCol (map (\<lambda>i. xs ! i) idx)"
| "select_rows idx (I64Col xs) = I64Col (map (\<lambda>i. xs ! i) idx)"
| "select_rows idx (ObjCol xs) = ObjCol (map (\<lambda>i. xs ! i) idx)"
| "select_rows idx (IntCol xs) = IntCol (map (\<lambda>i. xs ! i) idx)"
| "select_rows idx (DateCol xs) = DateCol (map (\<lambda>i. xs ! i) idx)"
| "select_rows idx (BoolCol xs) = BoolCol (map (\<lambda>i. xs ! i) idx)"

definition take_rows :: "nat list \<Rightarrow> table \<Rightarrow> table" where
  "take_rows idx df = map (\<lambda>kv. (fst kv, select_rows idx (snd kv))) df"

text \<open>
  \<open>df.sample(n, random_state=s)\<close>, without replacement: ValueError when \<open>n\<close> is larger
  than the frame, otherwise the rows at the positions the generator draws. Without a
  \<open>random_state\<close> the generator is seeded from the entropy of the run.
\<close>

definition df_sample :: "lib \<Rightarrow> nat \<Rightarrow> nat \<Rightarrow> nat option \<Rightarrow> table \<Rightarrow> error + table" where
  "df_sample L entropy n random_state df =
     (if nrows df < n then Inl ValueError
      else Inr (take_rows
                  (rng_choice L (case random_state of None \<Rightarrow> entropy | Some s \<Rightarrow> s)
                     (nrows df) n) df))"

text \<open>
  The data dictionary: per column its label, dtype, percentage of missing cells rounded
  to two decimals (half to even) and first cell that is not missing.
\<close>

datatype dtype = Dfloat64 | Dint64 | Dobject | DInt64 | Ddatetime64 | Dbool

datatype cellv = VNum fl | VStr string | VInt int | VDate date | VBool bool

record dict_row =
  d_column :: string
  d_dtype :: dtype
  d_null_pct :: fl
  d_example :: "cellv option"

fun dtype_of :: "column \<Rightarrow> dtype" where
  "dtype_of (NumCol xs) = Dfloat64"
| "dtype_of (I64Col xs) = Dint64"
| "dtype_of (ObjCol xs) = Dobject"
| "dtype_of (IntCol xs) = DInt64"
| "dtype_of (DateCol xs) = Ddatetime64"
| "dtype_of (BoolCol xs) = Dbool"

fun isna :: "column \<Rightarrow> bool list" where
  "isna (NumCol xs) = map (\<lambda>x. x = NaN) xs"
| "isna (I64Col xs) = map (\<lambda>x. False) xs"
| "isna (ObjCol xs) = map (\<lambda>x. x = None) xs"
| "isna (IntCol xs) = map (\<lambda>x. x = None) xs"
| "isna (DateCol xs) = map (\<lambda>x. x = None) xs"
| "isna (BoolCol xs) = map (\<lambda>x. False) xs"

definition rint :: "real \<Rightarrow> int" where
  "rint r =
     (let f = \<lfloor>r\<rfloor>; d = r - of_int f
      in if d < 1 / 2 then f else if 1 / 2 < d then f + 1 else if even f then f else f + 1)"

definition null_pct :: "column \<Rightarrow> fl" where
  "null_pct col =
     (let bs = isna col
      in if bs = [] then NaN
         else Fin (of_int (rint
                (real (length (filter (\<lambda>b. b) bs)) / real (length bs) * 100 * 100)) / 100))"

fun first_valid :: "column \<Rightarrow> cellv option" where
  "first_valid (NumCol xs) =
     (case filter (\<lambda>x. x \<noteq> NaN) xs of [] \<Rightarrow> None | x # rest \<Rightarrow> Some (VNum x))"
| "first_valid (I64Col xs) =
     (case xs of [] \<Rightarrow> None | x # rest \<Rightarrow> Some (VInt (sint x)))"
| "first_valid (ObjCol xs) =
     (case filter (\<lambda>x. x \<noteq> None) xs of [] \<Rightarrow> None | x # rest \<Rightarrow> map_option VStr x)"
| "first_valid (IntCol xs) =
     (case filter (\<lambda>x. x \<noteq> None) xs of [] \<Rightarrow> None | x # rest \<Rightarrow> map_option VInt x)"
| "first_valid (DateCol xs) =
     (case filter (\<lambda>x. x \<noteq> None) xs of [] \<Rightarrow> None | x # rest \<Rightarrow> map_option VDate x)"
| "first_valid (BoolCol xs) =
     (case xs of [] \<Rightarrow> None | x # rest \<Rightarrow> Some (VBool x))"

fun dict_rows :: "table \<Rightarrow> string list \<Rightarrow> error + dict_row list" where
  "dict_rows df [] = Inr []"
| "dict_rows df (c # cs) =
     (case getcol df c of Inl e \<Rightarrow> Inl e
      | Inr col \<Rightarrow>
          (case dict_rows df cs of Inl e \<Rightarrow> Inl e
           | Inr rest \<Rightarrow>
               Inr (\<lparr>d_column = c, d_dtype = dtype_of col, d_null_pct = null_pct col,
                     d_example = first_valid col\<rparr> # rest)))"

text \<open>
  \<^verbatim>\<open>
  data_dict = pd.DataFrame({
      "column": df.columns,
      "dtype": [df[c].dtype for c in df.columns],
      "null_pct": [round(df[c].isna().mean()*100, 2) for c in df.columns],
      "example": [df[c].dropna().iloc[0] if df[c].notna().any() else None for c in df.columns]
  }).sort_values("column")
  \<close>
\<close>

definition data_dict :: "table \<Rightarrow> error + dict_row list" where
  "data_dict df = bindE (dict_rows df (columns df)) (\<lambda>rows. Inr (sort_key d_column rows))"

section \<open>The script from the loaded frame to the written artifacts\<close>

record artifacts =
  cleaned :: table
  sample :: table
  dictionary :: "dict_row list"
  checks :: "(string \<times> int) list"

text \<open>
  Sections 2 to 6 of the script on the frame that \<open>read_csv\<close> returned. \<open>entropy\<close> is
  what an unseeded generator would be seeded with in this run.
  \<^verbatim>\<open>
  df.to_csv(CLEAN, index=False)
  df.sample(min(len(df), 500), random_state=42).to_csv(SAMPLE, index=False)
  ...
  data_dict.to_csv(DICT, index=False)
  \<close>
\<close>

definition run :: "lib \<Rightarrow> nat \<Rightarrow> table \<Rightarrow> error + artifacts" where
  "run L entropy raw =
     (let df = rename_columns raw
      in bindE (coerce_counts L df) (\<lambda>df.
         bindE (coerce_year_month L df) (\<lambda>df.
         bindE (derive_kpis L df) (\<lambda>df.
         bindE (quality_check L df) (\<lambda>qc.
           let df = fst qc
           in bindE (df_sample L entropy (min (nrows df) 500) (Some 42) df) (\<lambda>smp.
              bindE (data_dict df) (\<lambda>dd.
                Inr \<lparr>cleaned = df, sample = smp, dictionary = dd, checks = snd qc\<rparr>)))))))"

section \<open>A library instance for running the model\<close>

text \<open>
  A simple instance of the three library functions: unsigned decimal integers parse as
  numbers, \<open>Y-M-D\<close> with a month from 1 to 12, a day from 1 to 28 and a year within the
  timestamp range parses as a date, the generator draws the first \<open>k\<close> positions of
  the rows rotated by the seed, and rounding is the identity (the values of the examples
  below that go through it are floats).
\<close>

definition parse_nat :: "string \<Rightarrow> int option" where
  "parse_nat s =
     (if s \<noteq> [] \<and> list_all (\<lambda>ch. 48 \<le> (of_char ch :: int) \<and> (of_char ch :: int) \<le> 57) s
      then Some (foldl (\<lambda>a ch. 10 * a + (of_char ch - 48)) 0 s) else None)"

fun split_on :: "char \<Rightarrow> string \<Rightarrow> string \<Rightarrow> string list" where
  "split_on sep cur [] = [cur]"
| "split_on sep cur (ch # s) =
     (if ch = sep then cur # split_on sep [] s else split_on sep (cur @ [ch]) s)"

definition parse_date :: "string \<Rightarrow> date option" where
  "parse_date s =
     (case map parse_nat (split_on CHR ''-'' [] s) of
        [Some y, Some m, Some d] \<Rightarrow>
          (if 1678 \<le> y \<and> y \<le> 2261 \<and> 1 \<le> m \<and> m \<le> 12 \<and> 1 \<le> d \<and> d \<le> 28
           then Some (y, m, d) else None)
      | _ \<Rightarrow> None)"

definition demo_lib :: lib where
  "demo_lib =
     \<lparr>pd_to_numeric = (\<lambda>s. map_option (\<lambda>n. Fin (of_int n)) (parse_nat s)),
      pd_to_datetime = map parse_date,
      rng_choice = (\<lambda>seed n k. take k (rotate seed [0..<n])),
      fl_round = Fin\<rparr>"

section \<open>Vocabulary of the specification\<close>

text \<open>A frame is rectangular: every column has as many cells as the frame has rows.\<close>

definition rect :: "table \<Rightarrow> bool" where
  "rect df = list_all (\<lambda>kv. col_len (snd kv) = nrows df) df"

text \<open>
  One assignment \<open>df[c] = v\<close> to a label of \<open>S\<close>. The effect of a stage of the script
  on the frame: a sequence of such assignments that, given the library keeps lengths,
  leaves a rectangular frame rectangular with the same number of rows.
\<close>

definition assign1 :: "string set \<Rightarrow> table \<Rightarrow> table \<Rightarrow> bool" where
  "assign1 S df df' = (\<exists>c v. c \<in> S \<and> df' = setcol df c v)"

definition effect :: "lib \<Rightarrow> string set \<Rightarrow> table \<Rightarrow> table \<Rightarrow> bool" where
  "effect L S df df' =
     ((assign1 S)\<^sup>*\<^sup>* df df' \<and>
      (lib_ok L \<and> rect df \<longrightarrow> rect df' \<and> nrows df' = nrows df))"

text \<open>
  The derivation rules as the specification lists them: the source columns a rule
  needs, the columns it derives, and the pass of the script that implements it.
\<close>

definition kpi_rules :: "lib \<Rightarrow> (string list \<times> string list \<times> (table \<Rightarrow> error + table)) list" where
  "kpi_rules L =
     [([''year'', ''month''], [''year_month'', ''year_month_key''], derive_year_month L),
      ([''arr_del15'', ''arr_flights''], [''delayed_rate''], derive_delayed_rate L),
      ([''arr_flights'', ''arr_cancelled'', ''arr_diverted''], [''cancellation_rate''],
         derive_cancellation_rate L),
      ([''arr_delay'', ''arr_del15''], [''avg_delay_min_per_delayed_flight''],
         derive_avg_delay L)]
     @ map (\<lambda>cause. ([''arr_del15'', cause @ ''_ct''], [cause @ ''_cause_share_ct''],
                       derive_cause_share_ct L cause)) causes
     @ map (\<lambda>cause. ([''arr_delay'', cause @ ''_delay''], [cause @ ''_cause_share_min''],
                       derive_cause_share_min L cause)) causes"

text \<open>The quality check as a pass over the frame, and all passes of sections 4 and 5.\<close>

definition quality_pass :: "lib \<Rightarrow> table \<Rightarrow> error + table" where
  "quality_pass L df = bindE (quality_check L df) (\<lambda>qc. Inr (fst qc))"

definition all_passes :: "lib \<Rightarrow> (string list \<times> string list \<times> (table \<Rightarrow> error + table)) list" where
  "all_passes L =
     kpi_rules L @ [(req, [''cause_counts_exceed_delayed_flag''], quality_pass L)]"

text \<open>
  A cell of a column as read from the file is missing or does not parse as a number.
\<close>

fun unparseable :: "lib \<Rightarrow> column \<Rightarrow> nat \<Rightarrow> bool" where
  "unparseable L (NumCol xs) i = (xs ! i = NaN)"
| "unparseable L (ObjCol ss) i =
     (case ss ! i of None \<Rightarrow> True
      | Some w \<Rightarrow> (case pd_to_numeric L w of None \<Rightarrow> True | Some x \<Rightarrow> x = NaN))"
| "unparseable L col i = False"

text \<open>
  A cell of a numeric column is an int64 or a float64. \<open>to_f\<close> is its conversion to
  float64. \<open>np_add\<close> and \<open>np_gt\<close> are \<open>+\<close> and \<open>>\<close> on two cells as NumPy computes them:
  on the integers, wrapping around, when both are int64, and on float64 otherwise.
\<close>

datatype num = I i64 | F fl

fun cell :: "column \<Rightarrow> nat \<Rightarrow> num" where
  "cell (I64Col ws) i = I (ws ! i)"
| "cell (NumCol xs) i = F (xs ! i)"
| "cell col i = F NaN"

fun numeric :: "column \<Rightarrow> bool" where
  "numeric (I64Col ws) = True"
| "numeric (NumCol xs) = True"
| "numeric col = False"

fun to_f :: "lib \<Rightarrow> num \<Rightarrow> fl" where
  "to_f L (I w) = i2f L w"
| "to_f L (F x) = x"

fun np_add :: "lib \<Rightarrow> num \<Rightarrow> num \<Rightarrow> num" where
  "np_add L (I a) (I b) = I (a + b)"
| "np_add L x y = F (fadd L (to_f L x) (to_f L y))"

fun np_gt :: "lib \<Rightarrow> num \<Rightarrow> num \<Rightarrow> bool" where
  "np_gt L (I a) (I b) = (sint b < sint a)"
| "np_gt L x y = fgt (to_f L x) (to_f L y)"

text \<open>
  The sum of one row of a numeric frame, from left to right: int64, wrapping around,
  when every cell of the row is int64; otherwise every cell is converted to float64, a
  NaN counts as zero and the sum is float64.
\<close>

fun is_int :: "num \<Rightarrow> bool" where
  "is_int (I w) = True"
| "is_int (F x) = False"

fun int_of :: "num \<Rightarrow> i64" where
  "int_of (I w) = w"
| "int_of (F x) = 0"

definition row_sum :: "lib \<Rightarrow> num list \<Rightarrow> num" where
  "row_sum L xs =
     (if xs \<noteq> [] \<and> list_all is_int xs
      then I (foldl (+) (int_of (hd xs)) (map int_of (tl xs)))
      else (case map (\<lambda>x. nan_to_zero (to_f L x)) xs of
              [] \<Rightarrow> F (Fin 0)
            | y # ys \<Rightarrow> F (foldl (fadd L) y ys)))"

text \<open>A numeric column without a missing cell.\<close>

fun clean :: "column \<Rightarrow> bool" where
  "clean (I64Col ws) = True"
| "clean (NumCol xs) = (NaN \<notin> set xs)"
| "clean col = False"

text \<open>
  The labels the script reads as sources, and for each derived label the sources of the
  rule that derives it.
\<close>

definition source_names :: "string list" where
  "source_names = ''year'' # ''month'' # count_cols @ delay_min_cols"

definition derived_from :: "(string \<times> string list) list" where
  "derived_from =
     [(''year_month'', [''year'', ''month'']),
      (''year_month_key'', [''year'', ''month'']),
      (''delayed_rate'', [''arr_del15'', ''arr_flights'']),
      (''cancellation_rate'', [''arr_flights'', ''arr_cancelled'', ''arr_diverted'']),
      (''avg_delay_min_per_delayed_flight'', [''arr_delay'', ''arr_del15'']),
      (''carrier_cause_share_ct'', [''arr_del15'', ''carrier_ct'']),
      (''weather_cause_share_ct'', [''arr_del15'', ''weather_ct'']),
      (''nas_cause_share_ct'', [''arr_del15'', ''nas_ct'']),
      (''security_cause_share_ct'', [''arr_del15'', ''security_ct'']),
      (''late_aircraft_cause_share_ct'', [''arr_del15'', ''late_aircraft_ct'']),
      (''carrier_cause_share_min'', [''arr_delay'', ''carrier_delay'']),
      (''weather_cause_share_min'', [''arr_delay'', ''weather_delay'']),
      (''nas_cause_share_min'', [''arr_delay'', ''nas_delay'']),
      (''security_cause_share_min'', [''arr_delay'', ''security_delay'']),
      (''late_aircraft_cause_share_min'', [''arr_delay'', ''late_aircraft_delay'']),
      (''cause_counts_exceed_delayed_flag'', req)]"

text \<open>The sources and derived labels of all passes, in the order of the script.\<close>

definition rule_specs :: "(string list \<times> string list) list" where
  "rule_specs =
     [([''year'', ''month''], [''year_month'', ''year_month_key'']),
      ([''arr_del15'', ''arr_flights''], [''delayed_rate'']),
      ([''arr_flights'', ''arr_cancelled'', ''arr_diverted''], [''cancellation_rate'']),
      ([''arr_delay'', ''arr_del15''], [''avg_delay_min_per_delayed_flight'']),
      ([''arr_del15'', ''carrier_ct''], [''carrier_cause_share_ct'']),
      ([''arr_del15'', ''weather_ct''], [''weather_cause_share_ct'']),
      ([''arr_del15'', ''nas_ct''], [''nas_cause_share_ct'']),
      ([''arr_del15'', ''security_ct''], [''security_cause_share_ct'']),
      ([''arr_del15'', ''late_aircraft_ct''], [''late_aircraft_cause_share_ct'']),
      ([''arr_delay'', ''carrier_delay''], [''carrier_cause_share_min'']),
      ([''arr_delay'', ''weather_delay''], [''weather_cause_share_min'']),
      ([''arr_delay'', ''nas_delay''], [''nas_cause_share_min'']),
      ([''arr_delay'', ''security_delay''], [''security_cause_share_min'']),
      ([''arr_delay'', ''late_aircraft_delay''], [''late_aircraft_cause_share_min'']),
      (req, [''cause_counts_exceed_delayed_flag''])]"

text \<open>The labels derived by the passes whose sources are all among the labels \<open>N\<close>.\<close>

definition fired :: "lib \<Rightarrow> string set \<Rightarrow> string set" where
  "fired L N = {c. \<exists>r\<in>set (all_passes L). c \<in> set (fst (snd r)) \<and> set (fst r) \<subseteq> N}"

section \<open>Basic facts\<close>

lemma bindE_Inr [simp]: "bindE (Inr x) f = f x"
  by (simp add: bindE_def)

lemma bindE_Inl [simp]: "bindE (Inl e) f = Inl e"
  by (simp add: bindE_def)

lemma bindE_eq_Inr [simp]: "(bindE m f = Inr y) = (\<exists>x. m = Inr x \<and> f x = Inr y)"
  by (cases m) auto

lemma map_fst_upd:
  "map fst (map (\<lambda>kv. if fst kv = k then (fst kv, v) else kv) df) = map fst df"
  by (induction df) auto

lemma columns_setcol: "set (columns (setcol df c v)) = insert c (set (columns df))"
proof (cases "c \<in> set (columns df)")
  case True
  then have "columns (setcol df c v) = columns df"
    unfolding setcol_def columns_def by (simp add: map_fst_upd del: map_map)
  then show ?thesis using True by auto
next
  case False
  then show ?thesis by (simp add: setcol_def columns_def)
qed

lemma filter_upd_other:
  "c \<noteq> k \<Longrightarrow>
   filter (\<lambda>kv. fst kv = c) (map (\<lambda>kv. if fst kv = k then (fst kv, v) else kv) df) =
   filter (\<lambda>kv. fst kv = c) df"
  by (induction df) auto

lemma getcol_setcol_other: "c \<noteq> k \<Longrightarrow> getcol (setcol df k v) c = getcol df c"
  by (simp add: getcol_def setcol_def filter_upd_other)

lemma filter_setcol_same:
  "filter (\<lambda>kv. fst kv = k) (map (\<lambda>kv. if fst kv = k then (fst kv, v) else kv) df) =
   map (\<lambda>kv. (k, v)) (filter (\<lambda>kv. fst kv = k) df)"
  by (induction df) auto

lemma getcol_setcol_same:
  "getcol (setcol df k v) k = (if getcol df k = Inl NotModelled then Inl NotModelled else Inr v)"
proof (cases "k \<in> set (columns df)")
  case True
  then have "filter (\<lambda>kv. fst kv = k) df \<noteq> []"
    by (auto simp: columns_def filter_empty_conv)
  then show ?thesis using True
    by (auto simp: getcol_def setcol_def filter_setcol_same split: list.splits)
next
  case False
  then have "filter (\<lambda>kv. fst kv = k) df = []"
    by (auto simp: columns_def filter_empty_conv)
  then show ?thesis using False by (simp add: getcol_def setcol_def)
qed

lemma getcol_Inr_mem: "getcol df c = Inr col \<Longrightarrow> (c, col) \<in> set df"
proof -
  assume a: "getcol df c = Inr col"
  then obtain kv where f: "filter (\<lambda>kv. fst kv = c) df = [kv]" and s: "snd kv = col"
    by (auto simp: getcol_def split: list.splits)
  then have "kv \<in> set (filter (\<lambda>kv. fst kv = c) df)" by simp
  then have "kv \<in> set df" "fst kv = c" by auto
  then show ?thesis using s by (cases kv) auto
qed

lemma getcol_in_columns: "getcol df c = Inr col \<Longrightarrow> c \<in> set (columns df)"
  by (drule getcol_Inr_mem) (force simp: columns_def)

lemma getcol_KeyError: "(getcol df c = Inl KeyError) = (c \<notin> set (columns df))"
proof -
  have "(filter (\<lambda>kv. fst kv = c) df = []) = (c \<notin> set (columns df))"
    by (auto simp: columns_def filter_empty_conv)
  then show ?thesis by (auto simp: getcol_def split: list.splits)
qed

lemma rect_col_len: "rect df \<Longrightarrow> getcol df c = Inr col \<Longrightarrow> col_len col = nrows df"
  by (drule getcol_Inr_mem) (auto simp: rect_def list_all_iff)

lemma nrows_setcol: "rect df \<Longrightarrow> col_len v = nrows df \<Longrightarrow> nrows (setcol df c v) = nrows df"
  by (cases df) (auto simp: setcol_def nrows_def columns_def rect_def)

lemma rect_setcol: "rect df \<Longrightarrow> col_len v = nrows df \<Longrightarrow> rect (setcol df c v)"
  unfolding rect_def using nrows_setcol[unfolded rect_def, of df v c]
  by (auto simp: list_all_iff setcol_def)

lemma setcol_new: "c \<notin> set (columns df) \<Longrightarrow> setcol df c v = df @ [(c, v)]"
  by (simp add: setcol_def)

lemma upd_absent:
  "c \<notin> set (columns df) \<Longrightarrow> map (\<lambda>kv. if fst kv = c then (fst kv, v) else kv) df = df"
  by (induction df) (auto simp: columns_def)

lemma setcol_append_right:
  "c \<notin> set (columns df) \<Longrightarrow> setcol (df @ new) c v = df @ setcol new c v"
  by (auto simp: setcol_def upd_absent) (auto simp: columns_def)

subsection \<open>Sequences of assignments\<close>

lemma assign1D: "assign1 S a b \<Longrightarrow> \<exists>c v. c \<in> S \<and> b = setcol a c v"
  by (simp add: assign1_def)

lemma assign_mono:
  assumes "(assign1 S)\<^sup>*\<^sup>* df df'" and "S \<subseteq> T"
  shows "(assign1 T)\<^sup>*\<^sup>* df df'"
  using assms(1)
proof (induction rule: rtranclp_induct)
  case base
  show ?case by simp
next
  case (step y z)
  from assign1D [OF step(2)] obtain c v where "c \<in> S" "z = setcol y c v" by blast
  then have "assign1 T y z" using assms(2) by (auto simp: assign1_def)
  with step(3) show ?case by (rule rtranclp.rtrancl_into_rtrancl)
qed

lemma assign_columns:
  assumes "(assign1 S)\<^sup>*\<^sup>* df df'"
  shows "set (columns df) \<subseteq> set (columns df') \<and> set (columns df') \<subseteq> set (columns df) \<union> S"
  using assms
proof (induction rule: rtranclp_induct)
  case base
  show ?case by simp
next
  case (step y z)
  from assign1D [OF step(2)] obtain c v where "c \<in> S" "z = setcol y c v" by blast
  then show ?case using step(3) by (auto simp: columns_setcol)
qed

lemma assign_frame:
  assumes "(assign1 S)\<^sup>*\<^sup>* df df'" and "c \<notin> S"
  shows "getcol df' c = getcol df c"
  using assms(1)
proof (induction rule: rtranclp_induct)
  case base
  show ?case by simp
next
  case (step y z)
  from assign1D [OF step(2)] obtain k v where k: "k \<in> S" and z: "z = setcol y k v" by blast
  from k assms(2) have "c \<noteq> k" by auto
  then show ?case using step(3) z by (simp add: getcol_setcol_other)
qed

lemma assign_append:
  assumes "(assign1 S)\<^sup>*\<^sup>* df df'" and "S \<inter> set (columns df) = {}"
  shows "\<exists>new. df' = df @ new \<and> set (columns new) \<subseteq> S"
  using assms(1)
proof (induction rule: rtranclp_induct)
  case base
  show ?case by (rule exI [of _ "[]"]) (simp add: columns_def)
next
  case (step y z)
  then obtain new where y: "y = df @ new" and sub: "set (columns new) \<subseteq> S" by auto
  from assign1D [OF step(2)] obtain c v where c: "c \<in> S" and z: "z = setcol y c v" by blast
  from c assms(2) have "c \<notin> set (columns df)" by auto
  then have "z = df @ setcol new c v" using y z by (simp add: setcol_append_right)
  moreover have "set (columns (setcol new c v)) \<subseteq> S" using sub c by (simp add: columns_setcol)
  ultimately show ?case by blast
qed

lemma assign_kept:
  assumes "(assign1 S)\<^sup>*\<^sup>* df df'"
  shows "\<exists>kept new. df' = kept @ new \<and> columns kept = columns df \<and>
           (\<forall>i<length df. fst (df ! i) \<notin> S \<longrightarrow> kept ! i = df ! i) \<and>
           set (columns new) \<subseteq> S - set (columns df)"
  using assms
proof (induction rule: rtranclp_induct)
  case base
  show ?case by (intro exI [of _ df] exI [of _ "[]"]) (simp add: columns_def)
next
  case (step y z)
  then obtain kept new where y: "y = kept @ new" and lab: "columns kept = columns df"
    and same: "\<forall>i<length df. fst (df ! i) \<notin> S \<longrightarrow> kept ! i = df ! i"
    and sub: "set (columns new) \<subseteq> S - set (columns df)"
    by blast
  from assign1D [OF step(2)] obtain c v where c: "c \<in> S" and z: "z = setcol y c v" by blast
  have len: "length kept = length df"
    using lab by (simp add: columns_def) (metis length_map)
  show ?case
  proof (cases "c \<in> set (columns y)")
    case False
    then have "z = kept @ (new @ [(c, v)])" using y z by (simp add: setcol_def)
    moreover have "c \<notin> set (columns df)"
      using False unfolding y lab [symmetric] by (simp add: columns_def)
    then have "set (columns (new @ [(c, v)])) \<subseteq> S - set (columns df)"
      using sub c by (auto simp: columns_def)
    ultimately show ?thesis using lab same by blast
  next
    case True
    let ?u = "\<lambda>kv. if fst kv = c then (fst kv, v) else kv"
    have zz: "z = map ?u kept @ map ?u new" using True y z by (simp add: setcol_def)
    have l1: "columns (map ?u kept) = columns df"
      using lab unfolding columns_def by (simp add: map_fst_upd del: map_map)
    have l2: "columns (map ?u new) = columns new"
      unfolding columns_def by (simp add: map_fst_upd del: map_map)
    have "map ?u kept ! i = df ! i" if "i < length df" "fst (df ! i) \<notin> S" for i
    proof -
      have "kept ! i = df ! i" using same that by simp
      moreover have "fst (df ! i) \<noteq> c" using that(2) c by auto
      ultimately show ?thesis using that(1) len by simp
    qed
    then have l3: "\<forall>i<length df. fst (df ! i) \<notin> S \<longrightarrow> map ?u kept ! i = df ! i" by simp
    have l4: "set (columns (map ?u new)) \<subseteq> S - set (columns df)" using sub l2 by simp
    from zz l1 l3 l4 show ?thesis by blast
  qed
qed

subsection \<open>Effects of stages\<close>

lemma effect_refl: "effect L S df df"
  by (simp add: effect_def)

lemma effect_mono: "effect L S df df' \<Longrightarrow> S \<subseteq> T \<Longrightarrow> effect L T df df'"
  by (auto simp: effect_def intro: assign_mono)

lemma effect_trans:
  assumes "effect L S a b" and "effect L T b c"
  shows "effect L (S \<union> T) a c"
proof -
  have "(assign1 (S \<union> T))\<^sup>*\<^sup>* a b" using assms(1) by (auto simp: effect_def intro: assign_mono)
  moreover have "(assign1 (S \<union> T))\<^sup>*\<^sup>* b c" using assms(2) by (auto simp: effect_def intro: assign_mono)
  ultimately have "(assign1 (S \<union> T))\<^sup>*\<^sup>* a c" by (rule rtranclp_trans)
  then show ?thesis using assms by (auto simp: effect_def)
qed

lemma effect_setcol:
  assumes "c \<in> S" and "lib_ok L \<Longrightarrow> rect df \<Longrightarrow> col_len v = nrows df"
  shows "effect L S df (setcol df c v)"
proof -
  have "assign1 S df (setcol df c v)" using assms(1) by (auto simp: assign1_def)
  then have "(assign1 S)\<^sup>*\<^sup>* df (setcol df c v)" by (rule r_into_rtranclp)
  then show ?thesis using assms(2) by (auto simp: effect_def rect_setcol nrows_setcol)
qed

lemma effect_columns:
  "effect L S df df' \<Longrightarrow>
   set (columns df) \<subseteq> set (columns df') \<and> set (columns df') \<subseteq> set (columns df) \<union> S"
  unfolding effect_def using assign_columns [of S df df'] by blast

lemma effect_frame: "effect L S df df' \<Longrightarrow> c \<notin> S \<Longrightarrow> getcol df' c = getcol df c"
  unfolding effect_def using assign_frame [of S df df' c] by blast

lemma effect_rect: "effect L S df df' \<Longrightarrow> lib_ok L \<Longrightarrow> rect df \<Longrightarrow> rect df' \<and> nrows df' = nrows df"
  by (simp add: effect_def)

lemma effect_for_each:
  assumes "\<And>x d d'. x \<in> set xs \<Longrightarrow> body x d = Inr d' \<Longrightarrow> effect L (S x) d d'"
    and "for_each body xs df = Inr df'"
  shows "effect L (\<Union>x\<in>set xs. S x) df df'"
  using assms
proof (induction xs arbitrary: df)
  case Nil
  then show ?case by (simp add: effect_refl)
next
  case (Cons x xs)
  from Cons.prems(2) obtain d where d: "body x df = Inr d" and r: "for_each body xs d = Inr df'"
    by (auto split: sum.splits)
  have "effect L (S x) df d" using Cons.prems(1) d by simp
  moreover have "effect L (\<Union>x\<in>set xs. S x) d df'"
    using Cons.IH [OF _ r] Cons.prems(1) by simp
  ultimately have "effect L (S x \<union> (\<Union>x\<in>set xs. S x)) df df'" by (rule effect_trans)
  then show ?case by simp
qed

subsection \<open>Lengths\<close>

lemma those_length: "those xs = Some ys \<Longrightarrow> length ys = length xs"
  by (induction xs arbitrary: ys) (auto split: option.splits)

lemma astype_float_len: "astype_float L col = Inr xs \<Longrightarrow> length xs = col_len col"
  by (cases col) (auto simp: astype_float_def)

lemma astype_float_NumCol [simp]: "astype_float L (NumCol xs) = Inr xs"
  by (simp add: astype_float_def)

lemma astype_float_I64Col [simp]: "astype_float L (I64Col ws) = Inr (map (i2f L) ws)"
  by (simp add: astype_float_def)

lemma safe_div_Inr:
  "safe_div L a b = Inr r \<Longrightarrow>
   \<exists>xs ys. astype_float L a = Inr xs \<and> astype_float L b = Inr ys \<and>
           r = np_where (map feq0 ys) NaN (map2 fdiv xs ys)"
  by (auto simp: safe_div_def)

lemma safe_div_len:
  "safe_div L a b = Inr r \<Longrightarrow> col_len a = n \<Longrightarrow> col_len b = n \<Longrightarrow> length r = n"
  by (drule safe_div_Inr) (auto simp: np_where_def dest!: astype_float_len)

lemma series_add_len:
  assumes "series_add L a b = Inr s" and "col_len a = n" and "col_len b = n"
  shows "col_len s = n"
proof (cases "\<exists>xs ys. a = I64Col xs \<and> b = I64Col ys")
  case True
  then show ?thesis using assms by (auto simp: series_add_def)
next
  case False
  then have "series_add L a b =
      bindE (astype_float L a) (\<lambda>xs. bindE (astype_float L b) (\<lambda>ys.
        Inr (NumCol (map2 (fadd L) xs ys))))"
    by (auto simp: series_add_def split: column.splits)
  with assms show ?thesis by (auto dest!: astype_float_len)
qed

lemma to_numeric_len: "to_numeric L col = Inr n \<Longrightarrow> col_len n = col_len col"
  by (cases col) (auto simp: to_numeric_def)

lemma fillna0_len: "fillna0 n = Inr f \<Longrightarrow> col_len f = col_len n"
  by (cases n) (auto simp: fillna0_def)

lemma astype_Int64_len: "astype_Int64 col = Inr ys \<Longrightarrow> length ys = col_len col"
  by (cases col) (auto simp: astype_Int64_def split: option.splits dest: those_length)

lemma astype_int_len: "astype_int col = Inr ys \<Longrightarrow> length ys = col_len col"
  by (cases col) (auto simp: astype_int_def split: option.splits dest: those_length)

lemma ratio_effect:
  assumes "getcol df a = Inr num" and "getcol df b = Inr den" and "safe_div L num den = Inr r"
  shows "effect L {c} df (setcol df c (NumCol r))"
proof (rule effect_setcol)
  show "c \<in> {c}" by simp
next
  assume "rect df"
  then have "col_len num = nrows df" "col_len den = nrows df"
    using assms(1,2) by (auto dest: rect_col_len)
  then show "col_len (NumCol r) = nrows df" using safe_div_len [OF assms(3)] by simp
qed

subsection \<open>The effect of each stage\<close>

lemma coerce_count_effect:
  assumes "coerce_count L c df = Inr df'"
  shows "effect L {c} df df'"
proof (cases "c \<in> set (columns df)")
  case False
  then show ?thesis using assms by (simp add: coerce_count_def effect_refl)
next
  case True
  with assms obtain s n f where s: "getcol df c = Inr s" and n: "to_numeric L s = Inr n"
    and f: "fillna0 n = Inr f" and df': "df' = setcol df c f"
    by (auto simp: coerce_count_def)
  have "rect df \<Longrightarrow> col_len f = nrows df"
    using s n f by (simp add: fillna0_len to_numeric_len rect_col_len)
  then show ?thesis unfolding df' by (intro effect_setcol) auto
qed

lemma coerce_ym_effect:
  assumes "coerce_ym L c df = Inr df'"
  shows "effect L {c} df df'"
proof (cases "c \<in> set (columns df)")
  case False
  then show ?thesis using assms by (simp add: coerce_ym_def effect_refl)
next
  case True
  with assms obtain s xs ys where s: "getcol df c = Inr s" and xs: "to_numeric L s = Inr xs"
    and ys: "astype_Int64 xs = Inr ys" and df': "df' = setcol df c (IntCol ys)"
    by (auto simp: coerce_ym_def)
  have "rect df \<Longrightarrow> col_len (IntCol ys) = nrows df"
    using s xs ys by (simp add: astype_Int64_len to_numeric_len rect_col_len)
  then show ?thesis unfolding df' by (intro effect_setcol) auto
qed

lemma derive_year_month_effect:
  assumes "derive_year_month L df = Inr df'"
  shows "effect L {''year_month'', ''year_month_key''} df df'"
proof (cases "set [''year'', ''month''] \<subseteq> set (columns df)")
  case False
  then show ?thesis using assms by (auto simp: derive_year_month_def effect_refl)
next
  case True
  define strs where "strs = map2 (\<lambda>y m. str_int y @ ''-'' @ str_int m @ ''-01'')"
  from True assms obtain yc ys mc ms ym keys where yc: "getcol df ''year'' = Inr yc"
    and ys: "astype_int yc = Inr ys" and mc: "getcol df ''month'' = Inr mc"
    and ms: "astype_int mc = Inr ms"
    and ym: "getcol (setcol df ''year_month'' (DateCol (pd_to_datetime L (strs ys ms))))
               ''year_month'' = Inr ym"
    and keys: "dt_strftime_Ym ym = Inr keys"
    and df': "df' = setcol (setcol df ''year_month'' (DateCol (pd_to_datetime L (strs ys ms))))
                      ''year_month_key'' (ObjCol keys)"
    by (auto simp: derive_year_month_def Let_def strs_def)
  let ?d = "DateCol (pd_to_datetime L (strs ys ms))"
  let ?df1 = "setcol df ''year_month'' ?d"
  have len: "lib_ok L \<Longrightarrow> rect df \<Longrightarrow> col_len ?d = nrows df"
  proof -
    assume ok: "lib_ok L" and "rect df"
    then have "col_len yc = nrows df" "col_len mc = nrows df"
      using yc mc by (auto dest: rect_col_len)
    then have "length ys = nrows df" "length ms = nrows df"
      using ys ms by (auto dest: astype_int_len)
    then show ?thesis using ok by (simp add: lib_ok_def strs_def)
  qed
  then have e1: "effect L {''year_month''} df ?df1" by (intro effect_setcol) auto
  have "ym = ?d" using ym by (simp add: getcol_setcol_same split: if_splits)
  then have "length keys = col_len ?d" using keys by (auto simp: dt_strftime_Ym_def)
  moreover have "rect ?df1 \<Longrightarrow> col_len ?d = nrows ?df1"
    using ym \<open>ym = ?d\<close> rect_col_len [of ?df1 "''year_month''" ?d] by simp
  ultimately have "rect ?df1 \<Longrightarrow> col_len (ObjCol keys) = nrows ?df1" by simp
  then have e2: "effect L {''year_month_key''} ?df1 df'" unfolding df' by (intro effect_setcol) auto
  from effect_trans [OF e1 e2] show ?thesis by (simp add: insert_commute)
qed

lemma derive_delayed_rate_effect:
  "derive_delayed_rate L df = Inr df' \<Longrightarrow> effect L {''delayed_rate''} df df'"
  by (auto simp: derive_delayed_rate_def effect_refl split: if_splits intro: ratio_effect)

lemma derive_avg_delay_effect:
  "derive_avg_delay L df = Inr df' \<Longrightarrow> effect L {''avg_delay_min_per_delayed_flight''} df df'"
  by (auto simp: derive_avg_delay_def effect_refl split: if_splits intro: ratio_effect)

lemma derive_cause_share_ct_effect:
  "derive_cause_share_ct L cause df = Inr df' \<Longrightarrow> effect L {cause @ ''_cause_share_ct''} df df'"
  by (auto simp: derive_cause_share_ct_def Let_def effect_refl split: if_splits intro: ratio_effect)

lemma derive_cause_share_min_effect:
  "derive_cause_share_min L cause df = Inr df' \<Longrightarrow> effect L {cause @ ''_cause_share_min''} df df'"
  by (auto simp: derive_cause_share_min_def Let_def effect_refl split: if_splits intro: ratio_effect)

lemma derive_cancellation_rate_effect:
  assumes "derive_cancellation_rate L df = Inr df'"
  shows "effect L {''cancellation_rate''} df df'"
proof (cases "set [''arr_flights'', ''arr_cancelled'', ''arr_diverted''] \<subseteq> set (columns df)")
  case False
  then show ?thesis using assms by (auto simp: derive_cancellation_rate_def effect_refl)
next
  case True
  with assms obtain fl cn s1 dv total r where g: "getcol df ''arr_flights'' = Inr fl"
    "getcol df ''arr_cancelled'' = Inr cn" "getcol df ''arr_diverted'' = Inr dv"
    and s: "series_add L fl cn = Inr s1" "series_add L s1 dv = Inr total"
    and r: "safe_div L cn total = Inr r" and df': "df' = setcol df ''cancellation_rate'' (NumCol r)"
    by (auto simp: derive_cancellation_rate_def)
  have "rect df \<Longrightarrow> col_len (NumCol r) = nrows df"
  proof -
    assume "rect df"
    then have l: "col_len fl = nrows df" "col_len cn = nrows df" "col_len dv = nrows df"
      using g by (auto dest: rect_col_len)
    then have "col_len s1 = nrows df" using series_add_len [OF s(1)] by simp
    then have "col_len total = nrows df" using series_add_len [OF s(2)] l by simp
    then show ?thesis using safe_div_len [OF r] l by simp
  qed
  then show ?thesis unfolding df' by (intro effect_setcol) auto
qed

subsection \<open>The quality check\<close>

lemma foldl_map2_len:
  "length acc = n \<Longrightarrow> \<forall>xs\<in>set xss. length xs = n \<Longrightarrow> length (foldl (map2 f) acc xss) = n"
  by (induction xss arbitrary: acc) auto

lemma select_cols_five:
  assumes "select_cols df [n1, n2, n3, n4, n5] = Inr sub"
  shows "\<exists>c1 c2 c3 c4 c5. getcol df n1 = Inr c1 \<and> getcol df n2 = Inr c2 \<and> getcol df n3 = Inr c3 \<and>
           getcol df n4 = Inr c4 \<and> getcol df n5 = Inr c5 \<and>
           sub = [(n1, c1), (n2, c2), (n3, c3), (n4, c4), (n5, c5)]"
  using assms by (auto split: sum.splits)

lemma int_cols_Some:
  "int_cols sub = Some wss \<Longrightarrow> map snd sub = map I64Col wss"
  by (induction sub arbitrary: wss) (auto split: column.splits option.splits)

lemma int_cols_None:
  "int_cols sub = None \<Longrightarrow> \<exists>kv\<in>set sub. \<forall>ws. snd kv \<noteq> I64Col ws"
  by (induction sub) (auto split: column.splits option.splits)

lemma float_cols_Inr:
  "float_cols L sub = Inr xss \<Longrightarrow> map (astype_float L \<circ> snd) sub = map Inr xss"
  by (induction sub arbitrary: xss) (auto split: sum.splits)

lemma sum_axis1_cases:
  assumes "sum_axis1 L n sub = Inr s" and "sub \<noteq> []"
  shows "(\<exists>ws wss. map snd sub = map I64Col (ws # wss) \<and> s = I64Col (foldl (map2 (+)) ws wss)) \<or>
         ((\<exists>kv\<in>set sub. \<forall>ws. snd kv \<noteq> I64Col ws) \<and>
          (\<exists>xs xss. map (astype_float L \<circ> snd) sub = map Inr (xs # xss) \<and>
             s = NumCol (foldl (map2 (fadd L)) (map nan_to_zero xs) (map (map nan_to_zero) xss))))"
proof (cases "int_cols sub")
  case None
  from assms(1) None have b: "bindE (float_cols L sub) (\<lambda>xss.
            case map (map nan_to_zero) xss of
              [] \<Rightarrow> Inr (NumCol (replicate n (Fin 0)))
            | xs # rest \<Rightarrow> Inr (NumCol (foldl (map2 (fadd L)) xs rest))) = Inr s"
    by (simp add: sum_axis1_def)
  then obtain yss where y: "float_cols L sub = Inr yss"
    by (cases "float_cols L sub") auto
  from b have s: "(case map (map nan_to_zero) yss of
               [] \<Rightarrow> Inr (NumCol (replicate n (Fin 0)))
             | xs # rest \<Rightarrow> Inr (NumCol (foldl (map2 (fadd L)) xs rest))) =
            (Inr s :: error + column)"
    unfolding y by simp
  from float_cols_Inr [OF y] assms(2) obtain xs xss where "yss = xs # xss"
    by (cases yss) auto
  with s float_cols_Inr [OF y] int_cols_None [OF None] show ?thesis by auto
next
  case (Some wss)
  from int_cols_Some [OF Some] assms(2) obtain ws wss' where w: "wss = ws # wss'"
    by (cases wss) auto
  with assms(1) Some have "s = I64Col (foldl (map2 (+)) ws wss')"
    by (simp add: sum_axis1_def)
  with int_cols_Some [OF Some] w show ?thesis by blast
qed

lemma sum_axis1_len:
  assumes "sum_axis1 L n sub = Inr s" and "sub \<noteq> []"
    and "\<forall>kv\<in>set sub. col_len (snd kv) = n"
  shows "col_len s = n"
  using sum_axis1_cases [OF assms(1,2)]
proof (elim disjE exE conjE)
  fix ws wss
  assume m: "map snd sub = map I64Col (ws # wss)" and s: "s = I64Col (foldl (map2 (+)) ws wss)"
  have "\<forall>c\<in>set (map snd sub). col_len c = n" using assms(3) by simp
  then have "\<forall>c\<in>set (map I64Col (ws # wss)). col_len c = n" unfolding m .
  then have "length ws = n" "\<forall>xs\<in>set wss. length xs = n" by auto
  then show ?thesis unfolding s by (simp add: foldl_map2_len)
next
  fix xs xss
  assume m: "map (astype_float L \<circ> snd) sub = map Inr (xs # xss)"
    and s: "s = NumCol (foldl (map2 (fadd L)) (map nan_to_zero xs) (map (map nan_to_zero) xss))"
  have "\<forall>ys\<in>set (xs # xss). length ys = n"
  proof
    fix ys assume "ys \<in> set (xs # xss)"
    then have "Inr ys \<in> set (map (astype_float L \<circ> snd) sub)" unfolding m by auto
    then obtain kv where "kv \<in> set sub" "astype_float L (snd kv) = Inr ys" by auto
    then show "length ys = n" using assms(3) astype_float_len by fastforce
  qed
  then have "length (map nan_to_zero xs) = n"
    "\<forall>ys\<in>set (map (map nan_to_zero) xss). length ys = n" by auto
  then show ?thesis unfolding s by (simp add: foldl_map2_len)
qed

lemma series_gt_len:
  assumes "series_gt L a b = Inr flag" and "col_len a = n" and "col_len b = n"
  shows "length flag = n"
proof (cases "\<exists>xs ys. a = I64Col xs \<and> b = I64Col ys")
  case True
  then show ?thesis using assms by (auto simp: series_gt_def)
next
  case False
  then have "series_gt L a b =
      bindE (astype_float L a) (\<lambda>xs. bindE (astype_float L b) (\<lambda>ys. Inr (map2 fgt xs ys)))"
    by (auto simp: series_gt_def split: column.splits)
  with assms show ?thesis by (auto dest!: astype_float_len)
qed

lemma quality_check_fired:
  assumes "quality_check L df = Inr (df', ck)" and "set req \<subseteq> set (columns df)"
  shows "\<exists>c1 c2 c3 c4 c5 del s flag.
           getcol df ''carrier_ct'' = Inr c1 \<and> getcol df ''weather_ct'' = Inr c2 \<and>
           getcol df ''nas_ct'' = Inr c3 \<and> getcol df ''security_ct'' = Inr c4 \<and>
           getcol df ''late_aircraft_ct'' = Inr c5 \<and> getcol df ''arr_del15'' = Inr del \<and>
           sum_axis1 L (nrows df)
             [(''carrier_ct'', c1), (''weather_ct'', c2), (''nas_ct'', c3), (''security_ct'', c4),
              (''late_aircraft_ct'', c5)] = Inr s \<and>
           series_gt L s del = Inr flag \<and>
           df' = setcol df ''cause_counts_exceed_delayed_flag'' (BoolCol flag) \<and>
           ck = [(''rows_where_cause_counts_exceed_delayed'', int (length (filter (\<lambda>b. b) flag)))]"
proof -
  let ?five = "[''carrier_ct'', ''weather_ct'', ''nas_ct'', ''security_ct'', ''late_aircraft_ct'']"
  have g: "list_all (\<lambda>c. c \<in> set (columns df)) req"
    using assms(2) by (auto simp: list_all_iff)
  from assms(1) g obtain sub cause_sum del15 flag f n where
    sub: "select_cols df ?five = Inr sub" and cs: "sum_axis1 L (nrows df) sub = Inr cause_sum"
    and del: "getcol df ''arr_del15'' = Inr del15" and flag: "series_gt L cause_sum del15 = Inr flag"
    and f: "getcol (setcol df ''cause_counts_exceed_delayed_flag'' (BoolCol flag))
              ''cause_counts_exceed_delayed_flag'' = Inr f"
    and n: "bool_sum f = Inr n"
    and res: "df' = setcol df ''cause_counts_exceed_delayed_flag'' (BoolCol flag)"
      "ck = [(''rows_where_cause_counts_exceed_delayed'', n)]"
    unfolding quality_check_def by (auto simp: Let_def)
  from select_cols_five [OF sub] obtain c1 c2 c3 c4 c5 where
    gc: "getcol df ''carrier_ct'' = Inr c1" "getcol df ''weather_ct'' = Inr c2"
      "getcol df ''nas_ct'' = Inr c3" "getcol df ''security_ct'' = Inr c4"
      "getcol df ''late_aircraft_ct'' = Inr c5"
    and sub': "sub = [(''carrier_ct'', c1), (''weather_ct'', c2), (''nas_ct'', c3),
                     (''security_ct'', c4), (''late_aircraft_ct'', c5)]"
    by blast
  have "f = BoolCol flag" using f by (simp add: getcol_setcol_same split: if_splits)
  then have "n = int (length (filter (\<lambda>b. b) flag))" using n by (simp add: bool_sum_def)
  then show ?thesis
    using gc del flag cs [unfolded sub'] res by blast
qed

lemma quality_check_skipped:
  "\<not> set req \<subseteq> set (columns df) \<Longrightarrow> quality_check L df = Inr (df, [])"
  by (auto simp: quality_check_def list_all_iff)

lemma quality_check_effect:
  assumes "quality_check L df = Inr (df', ck)"
  shows "effect L {''cause_counts_exceed_delayed_flag''} df df'"
proof (cases "set req \<subseteq> set (columns df)")
  case False
  then show ?thesis using assms by (simp add: quality_check_skipped effect_refl)
next
  case True
  from quality_check_fired [OF assms True] obtain c1 c2 c3 c4 c5 del s flag where
    g: "getcol df ''carrier_ct'' = Inr c1" "getcol df ''weather_ct'' = Inr c2"
      "getcol df ''nas_ct'' = Inr c3" "getcol df ''security_ct'' = Inr c4"
      "getcol df ''late_aircraft_ct'' = Inr c5" "getcol df ''arr_del15'' = Inr del"
    and s: "sum_axis1 L (nrows df)
             [(''carrier_ct'', c1), (''weather_ct'', c2), (''nas_ct'', c3), (''security_ct'', c4),
              (''late_aircraft_ct'', c5)] = Inr s"
    and flag: "series_gt L s del = Inr flag"
    and df': "df' = setcol df ''cause_counts_exceed_delayed_flag'' (BoolCol flag)"
    by blast
  have "rect df \<Longrightarrow> col_len (BoolCol flag) = nrows df"
  proof -
    assume r: "rect df"
    have l: "col_len c1 = nrows df" "col_len c2 = nrows df" "col_len c3 = nrows df"
      "col_len c4 = nrows df" "col_len c5 = nrows df" "col_len del = nrows df"
      using g rect_col_len [OF r] by blast+
    then have "col_len s = nrows df" by (intro sum_axis1_len [OF s]) simp_all
    then show ?thesis using series_gt_len [OF flag] l by simp
  qed
  then show ?thesis unfolding df' by (intro effect_setcol) auto
qed

lemma quality_pass_effect:
  assumes "quality_pass L df = Inr df'"
  shows "effect L {''cause_counts_exceed_delayed_flag''} df df'"
proof -
  from assms obtain qc where "quality_check L df = Inr qc" and "df' = fst qc"
    by (auto simp: quality_pass_def)
  then have "quality_check L df = Inr (df', snd qc)" by simp
  then show ?thesis by (rule quality_check_effect)
qed

subsection \<open>The rules of the specification and the passes of the script\<close>

lemma pass_effect:
  assumes "(reqs, outs, p) \<in> set (all_passes L)" and "p df = Inr df'"
  shows "effect L (set outs) df df'"
  using assms
  by (auto simp: all_passes_def kpi_rules_def causes_def
      intro: derive_year_month_effect derive_delayed_rate_effect derive_cancellation_rate_effect
        derive_avg_delay_effect quality_pass_effect
        derive_cause_share_ct_effect [of _ "''carrier''", simplified]
        derive_cause_share_ct_effect [of _ "''weather''", simplified]
        derive_cause_share_ct_effect [of _ "''nas''", simplified]
        derive_cause_share_ct_effect [of _ "''security''", simplified]
        derive_cause_share_ct_effect [of _ "''late_aircraft''", simplified]
        derive_cause_share_min_effect [of _ "''carrier''", simplified]
        derive_cause_share_min_effect [of _ "''weather''", simplified]
        derive_cause_share_min_effect [of _ "''nas''", simplified]
        derive_cause_share_min_effect [of _ "''security''", simplified]
        derive_cause_share_min_effect [of _ "''late_aircraft''", simplified])

lemma pass_skip:
  assumes "(reqs, outs, p) \<in> set (all_passes L)" and "\<not> set reqs \<subseteq> set (columns df)"
  shows "p df = Inr df"
  using assms
  by (auto simp: all_passes_def kpi_rules_def causes_def derive_year_month_def
      derive_delayed_rate_def derive_cancellation_rate_def derive_avg_delay_def
      derive_cause_share_ct_def derive_cause_share_min_def quality_pass_def
      quality_check_def req_def Let_def split: if_splits)

lemma derive_kpis_rules:
  "derive_kpis L df = for_each (\<lambda>r. snd (snd r)) (kpi_rules L) df"
  by (simp add: derive_kpis_def kpi_rules_def causes_def bindE_def split: sum.splits)

lemma pass_reqs_nonempty: "(reqs, outs, p) \<in> set (all_passes L) \<Longrightarrow> reqs \<noteq> []"
  by (auto simp: all_passes_def kpi_rules_def causes_def req_def)

subsection \<open>Coercion keeps the labels and rewrites each designated column once\<close>

lemma setcol_existing_columns: "c \<in> set (columns df) \<Longrightarrow> columns (setcol df c v) = columns df"
  unfolding setcol_def columns_def by (simp add: map_fst_upd del: map_map)

lemma coerce_count_columns: "coerce_count L c df = Inr df' \<Longrightarrow> columns df' = columns df"
  by (auto simp: coerce_count_def setcol_existing_columns split: if_splits)

lemma coerce_ym_columns: "coerce_ym L c df = Inr df' \<Longrightarrow> columns df' = columns df"
  by (auto simp: coerce_ym_def setcol_existing_columns split: if_splits)

lemma for_each_columns:
  assumes "\<And>x d d'. body x d = Inr d' \<Longrightarrow> columns d' = columns d"
    and "for_each body xs df = Inr df'"
  shows "columns df' = columns df"
  using assms(2)
proof (induction xs arbitrary: df)
  case Nil
  then show ?case by simp
next
  case (Cons x xs)
  from Cons.prems obtain d where d: "body x df = Inr d" and r: "for_each body xs d = Inr df'"
    by (auto split: sum.splits)
  from Cons.IH [OF r] assms(1) [OF d] show ?case by simp
qed

lemma coerce_counts_columns: "coerce_counts L df = Inr df' \<Longrightarrow> columns df' = columns df"
  unfolding coerce_counts_def by (rule for_each_columns [OF coerce_count_columns])

lemma coerce_year_month_columns: "coerce_year_month L df = Inr df' \<Longrightarrow> columns df' = columns df"
  unfolding coerce_year_month_def by (rule for_each_columns [OF coerce_ym_columns])

lemma coerce_counts_effect:
  "coerce_counts L df = Inr df' \<Longrightarrow> effect L (set (count_cols @ delay_min_cols)) df df'"
  unfolding coerce_counts_def
  using effect_for_each [of "count_cols @ delay_min_cols" "coerce_count L" L "\<lambda>c. {c}" df df']
  by (simp add: coerce_count_effect)

lemma coerce_year_month_effect:
  "coerce_year_month L df = Inr df' \<Longrightarrow> effect L {''year'', ''month''} df df'"
  unfolding coerce_year_month_def
  using effect_for_each [of "[''year'', ''month'']" "coerce_ym L" L "\<lambda>c. {c}" df df']
  by (simp add: coerce_ym_effect insert_commute)

lemma coerce_count_value:
  assumes "coerce_count L c df = Inr df'" and "c \<in> set (columns df)"
  shows "\<exists>col n f. getcol df c = Inr col \<and> to_numeric L col = Inr n \<and> fillna0 n = Inr f \<and>
           getcol df' c = Inr f"
proof -
  from assms obtain col n f where col: "getcol df c = Inr col" and n: "to_numeric L col = Inr n"
    and f: "fillna0 n = Inr f" and df': "df' = setcol df c f"
    by (auto simp: coerce_count_def)
  have "getcol df' c = Inr f"
    using col by (simp add: df' getcol_setcol_same)
  with col n f show ?thesis by blast
qed

lemma coerce_loop_frame:
  assumes "for_each (coerce_count L) xs df = Inr df'" and "c \<notin> set xs"
  shows "getcol df' c = getcol df c"
proof -
  have "effect L (\<Union>x\<in>set xs. {x}) df df'"
    using assms(1) by (intro effect_for_each [of xs "coerce_count L"]) (auto intro: coerce_count_effect)
  then show ?thesis using assms(2) by (intro effect_frame) auto
qed

lemma coerce_loop_value:
  assumes "for_each (coerce_count L) xs df = Inr df'" and "distinct xs" and "c \<in> set xs"
    and "c \<in> set (columns df)"
  shows "\<exists>col n f. getcol df c = Inr col \<and> to_numeric L col = Inr n \<and> fillna0 n = Inr f \<and>
           getcol df' c = Inr f"
  using assms
proof (induction xs arbitrary: df)
  case Nil
  then show ?case by simp
next
  case (Cons x xs)
  from Cons.prems(1) obtain d where d: "coerce_count L x df = Inr d"
    and r: "for_each (coerce_count L) xs d = Inr df'"
    by (auto split: sum.splits)
  show ?case
  proof (cases "x = c")
    case True
    from coerce_count_value [OF d [unfolded True] Cons.prems(4)] obtain col n f where
      v: "getcol df c = Inr col" "to_numeric L col = Inr n" "fillna0 n = Inr f"
        "getcol d c = Inr f"
      by blast
    have "c \<notin> set xs" using Cons.prems(2) True by simp
    from coerce_loop_frame [OF r this] v show ?thesis by auto
  next
    case False
    then have cx: "c \<in> set xs" using Cons.prems(3) by simp
    have "c \<in> set (columns d)" using coerce_count_columns [OF d] Cons.prems(4) by simp
    from Cons.IH [OF r _ cx this] Cons.prems(2) obtain col n f where
      v: "getcol d c = Inr col" "to_numeric L col = Inr n" "fillna0 n = Inr f"
        "getcol df' c = Inr f"
      by auto
    have "getcol d c = getcol df c"
      using effect_frame [OF coerce_count_effect [OF d], of c] False by simp
    with v show ?thesis by auto
  qed
qed

lemma designated_distinct: "distinct (count_cols @ delay_min_cols)"
  by (simp add: count_cols_def delay_min_cols_def)

lemma to_numeric_nan:
  "to_numeric L col = Inr (NumCol ys) \<Longrightarrow> i < length ys \<Longrightarrow>
   unparseable L col i = (ys ! i = NaN)"
  by (cases col) (auto simp: to_numeric_def to_numeric_cell_def split: option.splits)

lemma to_numeric_I64Col:
  "to_numeric L col = Inr (I64Col ws) \<longleftrightarrow> col = I64Col ws"
  by (cases col) (auto simp: to_numeric_def)

lemma to_numeric_cases:
  assumes "to_numeric L col = Inr n"
  shows "(\<exists>ws. col = I64Col ws \<and> n = I64Col ws) \<or>
         ((\<forall>ws. col \<noteq> I64Col ws) \<and> (\<exists>ys. n = NumCol ys))"
  using assms by (cases col) (auto simp: to_numeric_def)

lemma fillna0_NumCol:
  "fillna0 (NumCol ys) = Inr f \<Longrightarrow> f = NumCol (map (\<lambda>x. if x = NaN then Fin 0 else x) ys)"
  by (simp add: fillna0_def)

lemma fillna0_I64Col: "fillna0 (I64Col ws) = Inr f \<Longrightarrow> f = I64Col ws"
  by (simp add: fillna0_def)

lemma fillna0_clean: "fillna0 n = Inr f \<Longrightarrow> clean f"
  by (cases n) (auto simp: fillna0_def)

subsection \<open>The whole run\<close>

lemma rename_columns_shape [simp]:
  "nrows (rename_columns df) = nrows df" "rect (rename_columns df) = rect df"
  by (cases df; auto simp: rename_columns_def nrows_def rect_def list_all_iff)+

lemma derive_kpis_effect:
  assumes "derive_kpis L df = Inr df'"
  shows "effect L (\<Union>r\<in>set (kpi_rules L). set (fst (snd r))) df df'"
proof (rule effect_for_each [of "kpi_rules L" "\<lambda>r. snd (snd r)"])
  fix r d d'
  assume "r \<in> set (kpi_rules L)" and "snd (snd r) d = Inr d'"
  then show "effect L (set (fst (snd r))) d d'"
    using pass_effect [of "fst r" "fst (snd r)" "snd (snd r)" L d d']
    by (simp add: all_passes_def)
next
  show "for_each (\<lambda>r. snd (snd r)) (kpi_rules L) df = Inr df'"
    using assms by (simp add: derive_kpis_rules)
qed

lemma run_Inr:
  assumes "run L entropy raw = Inr out"
  shows "\<exists>df1 df2 df3. coerce_counts L (rename_columns raw) = Inr df1 \<and>
           coerce_year_month L df1 = Inr df2 \<and> derive_kpis L df2 = Inr df3 \<and>
           quality_check L df3 = Inr (cleaned out, checks out) \<and>
           df_sample L entropy (min (nrows (cleaned out)) 500) (Some 42) (cleaned out) = Inr (sample out) \<and>
           data_dict (cleaned out) = Inr (dictionary out)"
  using assms by (auto simp: run_def Let_def)

lemma run_shape:
  assumes "run L entropy raw = Inr out" and "lib_ok L" and "rect raw"
  shows "rect (cleaned out) \<and> nrows (cleaned out) = nrows raw"
proof -
  from run_Inr [OF assms(1)] obtain df1 df2 df3 where
    s: "coerce_counts L (rename_columns raw) = Inr df1" "coerce_year_month L df1 = Inr df2"
      "derive_kpis L df2 = Inr df3" "quality_check L df3 = Inr (cleaned out, checks out)"
    by blast
  have r0: "rect (rename_columns raw)" using assms(3) by simp
  from effect_rect [OF coerce_counts_effect [OF s(1)] assms(2) r0]
  have r1: "rect df1" "nrows df1 = nrows raw" by simp_all
  from effect_rect [OF coerce_year_month_effect [OF s(2)] assms(2) r1(1)] r1(2)
  have r2: "rect df2" "nrows df2 = nrows raw" by simp_all
  from effect_rect [OF derive_kpis_effect [OF s(3)] assms(2) r2(1)] r2(2)
  have r3: "rect df3" "nrows df3 = nrows raw" by simp_all
  from effect_rect [OF quality_check_effect [OF s(4)] assms(2) r3(1)] r3(2)
  show ?thesis by simp
qed

lemma nrows_take_rows: "df \<noteq> [] \<Longrightarrow> nrows (take_rows idx df) = length idx"
  by (cases df; cases "snd (hd df)") (auto simp: take_rows_def nrows_def)

lemma demo_lib_ok: "lib_ok demo_lib"
proof -
  have "set (take k (rotate seed [0..<n])) \<subseteq> {..<n}" for k seed n
    using set_take_subset [of k "rotate seed [0..<n]"] by auto
  then show ?thesis by (auto simp: lib_ok_def demo_lib_def)
qed

subsection \<open>Which columns a run adds\<close>

lemma all_passes_specs: "map (\<lambda>r. (fst r, fst (snd r))) (all_passes L) = rule_specs"
  by (simp add: all_passes_def kpi_rules_def causes_def rule_specs_def)

lemma pass_in_specs: "(reqs, outs, p) \<in> set (all_passes L) \<Longrightarrow> (reqs, outs) \<in> set rule_specs"
  unfolding all_passes_specs [of L, symmetric] by force

lemma specs_sources:
  "list_all (\<lambda>s. list_all (\<lambda>x. x \<in> set source_names) (fst s) \<and>
                  list_all (\<lambda>x. x \<notin> set source_names) (snd s) \<and>
                  list_all (\<lambda>c. (c, fst s) \<in> set derived_from) (snd s)) rule_specs"
  by code_simp

lemma derived_from_distinct: "distinct (map fst derived_from)"
  by code_simp

lemma rule_reqs_sources: "(reqs, outs, p) \<in> set (all_passes L) \<Longrightarrow> set reqs \<subseteq> set source_names"
  using specs_sources by (auto simp: list_all_iff dest!: pass_in_specs)

lemma rule_outs_not_sources:
  "(reqs, outs, p) \<in> set (all_passes L) \<Longrightarrow> c \<in> set outs \<Longrightarrow> c \<notin> set source_names"
  using specs_sources by (auto simp: list_all_iff dest!: pass_in_specs)

lemma rule_derived_from:
  "(reqs, outs, p) \<in> set (all_passes L) \<Longrightarrow> c \<in> set outs \<Longrightarrow> (c, reqs) \<in> set derived_from"
  using specs_sources by (auto simp: list_all_iff dest!: pass_in_specs)

lemma rule_outs_unique:
  assumes "(reqs, outs, p) \<in> set (all_passes L)" and "(reqs', outs', p') \<in> set (all_passes L)"
    and "c \<in> set outs" and "c \<in> set outs'"
  shows "reqs = reqs'"
  using rule_derived_from [OF assms(1,3)] rule_derived_from [OF assms(2,4)] derived_from_distinct
  by (rule eq_key_imp_eq_value [rotated 1])

lemma pass_grows:
  assumes r: "(reqs, outs, p) \<in> set (all_passes L)" and p: "p df = Inr df'"
    and inv: "N \<subseteq> set (columns df)" "set (columns df) \<subseteq> N \<union> fired L N"
  shows "N \<subseteq> set (columns df') \<and> set (columns df') \<subseteq> N \<union> fired L N"
proof (cases "set reqs \<subseteq> set (columns df)")
  case False
  then have "df' = df" using pass_skip [OF r] p by simp
  then show ?thesis using inv by simp
next
  case True
  have "set reqs \<subseteq> N"
  proof
    fix x assume x: "x \<in> set reqs"
    then have src: "x \<in> set source_names" using rule_reqs_sources [OF r] by auto
    from x True inv(2) have "x \<in> N \<or> x \<in> fired L N" by auto
    moreover have "x \<notin> fired L N"
    proof
      assume "x \<in> fired L N"
      then obtain r' where "r' \<in> set (all_passes L)" "x \<in> set (fst (snd r'))"
        by (auto simp: fired_def)
      then have "x \<notin> set source_names"
        using rule_outs_not_sources [of "fst r'" "fst (snd r')" "snd (snd r')" L x] by simp
      with src show False by simp
    qed
    ultimately show "x \<in> N" by simp
  qed
  then have "set outs \<subseteq> fired L N" using r by (force simp: fired_def)
  moreover from effect_columns [OF pass_effect [OF r p]]
  have "set (columns df) \<subseteq> set (columns df')" "set (columns df') \<subseteq> set (columns df) \<union> set outs"
    by simp_all
  ultimately show ?thesis using inv by blast
qed

lemma passes_grow:
  assumes "set rs \<subseteq> set (all_passes L)" and "for_each (\<lambda>r. snd (snd r)) rs df = Inr df'"
    and "N \<subseteq> set (columns df)" "set (columns df) \<subseteq> N \<union> fired L N"
  shows "N \<subseteq> set (columns df') \<and> set (columns df') \<subseteq> N \<union> fired L N"
  using assms
proof (induction rs arbitrary: df)
  case Nil
  then show ?case by simp
next
  case (Cons r rs)
  from Cons.prems(2) obtain d where d: "snd (snd r) df = Inr d"
    and rest: "for_each (\<lambda>r. snd (snd r)) rs d = Inr df'"
    by (auto split: sum.splits)
  have "(fst r, fst (snd r), snd (snd r)) \<in> set (all_passes L)" using Cons.prems(1) by simp
  from pass_grows [OF this d Cons.prems(3,4)]
  have "N \<subseteq> set (columns d)" "set (columns d) \<subseteq> N \<union> fired L N" by simp_all
  from Cons.IH [OF _ rest this] Cons.prems(1) show ?case by simp
qed

lemma run_columns:
  assumes "run L entropy raw = Inr out"
  shows "set (columns (rename_columns raw)) \<subseteq> set (columns (cleaned out)) \<and>
         set (columns (cleaned out)) \<subseteq>
           set (columns (rename_columns raw)) \<union> fired L (set (columns (rename_columns raw)))"
proof -
  let ?N = "set (columns (rename_columns raw))"
  from run_Inr [OF assms] obtain df1 df2 df3 where
    s: "coerce_counts L (rename_columns raw) = Inr df1" "coerce_year_month L df1 = Inr df2"
      "derive_kpis L df2 = Inr df3" "quality_check L df3 = Inr (cleaned out, checks out)"
    by blast
  have c2: "set (columns df2) = ?N"
    using coerce_counts_columns [OF s(1)] coerce_year_month_columns [OF s(2)] by simp
  have k: "for_each (\<lambda>r. snd (snd r)) (kpi_rules L) df2 = Inr df3"
    using s(3) by (simp add: derive_kpis_rules)
  have "set (kpi_rules L) \<subseteq> set (all_passes L)" by (auto simp: all_passes_def)
  from passes_grow [OF this k, of ?N] c2
  have i3: "?N \<subseteq> set (columns df3)" "set (columns df3) \<subseteq> ?N \<union> fired L ?N" by simp_all
  have q: "quality_pass L df3 = Inr (cleaned out)" using s(4) by (simp add: quality_pass_def)
  have "(req, [''cause_counts_exceed_delayed_flag''], quality_pass L) \<in> set (all_passes L)"
    by (simp add: all_passes_def)
  from pass_grows [OF this q i3] show ?thesis .
qed

subsection \<open>The derived values in the cleaned table\<close>

lemma dict_rows_getcol:
  "dict_rows df cs = Inr rows \<Longrightarrow> c \<in> set cs \<Longrightarrow> \<exists>col. getcol df c = Inr col"
  by (induction cs arbitrary: rows) (auto split: sum.splits)

lemma run_getcol:
  assumes "run L entropy raw = Inr out" and "c \<in> set (columns (cleaned out))"
  shows "\<exists>col. getcol (cleaned out) c = Inr col"
proof -
  from run_Inr [OF assms(1)] have "data_dict (cleaned out) = Inr (dictionary out)" by blast
  then obtain rows where "dict_rows (cleaned out) (columns (cleaned out)) = Inr rows"
    by (auto simp: data_dict_def)
  from dict_rows_getcol [OF this assms(2)] show ?thesis .
qed

lemma derive_kpis_Inr:
  assumes "derive_kpis L df = Inr df'"
  shows "\<exists>d1 d2 d3 d4 d5. derive_year_month L df = Inr d1 \<and> derive_delayed_rate L d1 = Inr d2 \<and>
           derive_cancellation_rate L d2 = Inr d3 \<and> derive_avg_delay L d3 = Inr d4 \<and>
           for_each (derive_cause_share_ct L) causes d4 = Inr d5 \<and>
           for_each (derive_cause_share_min L) causes d5 = Inr df'"
  using assms by (auto simp: derive_kpis_def)

lemma cause_share_ct_loop_effect:
  "for_each (derive_cause_share_ct L) causes df = Inr df' \<Longrightarrow>
   effect L (\<Union>x\<in>set causes. {x @ ''_cause_share_ct''}) df df'"
  by (rule effect_for_each [of causes "derive_cause_share_ct L"])
    (auto intro: derive_cause_share_ct_effect)

lemma cause_share_min_loop_effect:
  "for_each (derive_cause_share_min L) causes df = Inr df' \<Longrightarrow>
   effect L (\<Union>x\<in>set causes. {x @ ''_cause_share_min''}) df df'"
  by (rule effect_for_each [of causes "derive_cause_share_min L"])
    (auto intro: derive_cause_share_min_effect)

lemma kpis_source_frame:
  assumes "derive_kpis L df = Inr df'" and "c \<in> set source_names"
  shows "getcol df' c = getcol df c"
proof (rule effect_frame [OF derive_kpis_effect [OF assms(1)]])
  show "c \<notin> (\<Union>r\<in>set (kpi_rules L). set (fst (snd r)))"
  proof
    assume "c \<in> (\<Union>r\<in>set (kpi_rules L). set (fst (snd r)))"
    then obtain r where "r \<in> set (kpi_rules L)" "c \<in> set (fst (snd r))" by auto
    then have "c \<notin> set source_names"
      using rule_outs_not_sources [of "fst r" "fst (snd r)" "snd (snd r)" L c]
      by (simp add: all_passes_def)
    with assms(2) show False by simp
  qed
qed

lemma derive_cancellation_rate_fired:
  assumes "derive_cancellation_rate L df = Inr df'"
    and "set [''arr_flights'', ''arr_cancelled'', ''arr_diverted''] \<subseteq> set (columns df)"
  shows "\<exists>fl cn dv s1 total r. getcol df ''arr_flights'' = Inr fl \<and>
           getcol df ''arr_cancelled'' = Inr cn \<and> getcol df ''arr_diverted'' = Inr dv \<and>
           series_add L fl cn = Inr s1 \<and> series_add L s1 dv = Inr total \<and>
           safe_div L cn total = Inr r \<and>
           df' = setcol df ''cancellation_rate'' (NumCol r)"
  using assms by (auto simp: derive_cancellation_rate_def)

lemma coerce_counts_clean:
  assumes "coerce_counts L df = Inr df'" and "c \<in> set (count_cols @ delay_min_cols)"
    and "getcol df' c = Inr col"
  shows "clean col"
proof -
  have "c \<in> set (columns df)"
    using getcol_in_columns [OF assms(3)] coerce_counts_columns [OF assms(1)] by simp
  from coerce_loop_value [OF assms(1) [unfolded coerce_counts_def] designated_distinct assms(2) this]
  obtain n f where "fillna0 n = Inr f" "getcol df' c = Inr f" by blast
  with assms(3) fillna0_clean [of n f] show ?thesis by simp
qed

lemma clean_numeric: "clean col \<Longrightarrow> numeric col"
  by (cases col) auto

lemma astype_float_nth:
  "astype_float L col = Inr xs \<Longrightarrow> i < col_len col \<Longrightarrow> xs ! i = to_f L (cell col i)"
  by (cases col) (auto simp: astype_float_def)

lemma astype_float_numeric: "astype_float L col = Inr xs \<Longrightarrow> numeric col"
  by (cases col) (auto simp: astype_float_def)

lemma series_add_cell:
  assumes "series_add L a b = Inr s" and "col_len a = n" and "col_len b = n" and "i < n"
  shows "numeric a \<and> numeric b \<and> numeric s \<and> cell s i = np_add L (cell a i) (cell b i)"
proof (cases "\<exists>xs ys. a = I64Col xs \<and> b = I64Col ys")
  case True
  then show ?thesis using assms by (auto simp: series_add_def)
next
  case False
  then have "series_add L a b =
      bindE (astype_float L a) (\<lambda>xs. bindE (astype_float L b) (\<lambda>ys.
        Inr (NumCol (map2 (fadd L) xs ys))))"
    by (auto simp: series_add_def split: column.splits)
  with assms(1) obtain xs ys where x: "astype_float L a = Inr xs" and y: "astype_float L b = Inr ys"
    and s: "s = NumCol (map2 (fadd L) xs ys)"
    by auto
  have l: "length xs = n" "length ys = n"
    using astype_float_len [OF x] astype_float_len [OF y] assms(2,3) by simp_all
  have "cell s i = F (fadd L (to_f L (cell a i)) (to_f L (cell b i)))"
    using astype_float_nth [OF x] astype_float_nth [OF y] assms(2-4) l by (simp add: s)
  also have "\<dots> = np_add L (cell a i) (cell b i)"
    using False astype_float_numeric [OF x] astype_float_numeric [OF y]
    by (cases a; cases b) auto
  finally show ?thesis
    using astype_float_numeric [OF x] astype_float_numeric [OF y] by (simp add: s)
qed

lemma safe_div_nth:
  assumes "safe_div L a b = Inr r" and "col_len a = n" and "col_len b = n" and "i < n"
  shows "r ! i = (if feq0 (to_f L (cell b i)) then NaN
                  else fdiv (to_f L (cell a i)) (to_f L (cell b i)))"
proof -
  from safe_div_Inr [OF assms(1)] obtain xs ys where x: "astype_float L a = Inr xs"
    and y: "astype_float L b = Inr ys"
    and r: "r = np_where (map feq0 ys) NaN (map2 fdiv xs ys)"
    by blast
  have l: "length xs = n" "length ys = n"
    using astype_float_len [OF x] astype_float_len [OF y] assms(2,3) by simp_all
  then show ?thesis
    using astype_float_nth [OF x] astype_float_nth [OF y] assms(2-4)
    by (simp add: r np_where_def)
qed

lemma series_gt_nth:
  assumes "series_gt L a b = Inr flag" and "col_len a = n" and "col_len b = n" and "i < n"
  shows "flag ! i = np_gt L (cell a i) (cell b i)"
proof (cases "\<exists>xs ys. a = I64Col xs \<and> b = I64Col ys")
  case True
  then show ?thesis using assms by (auto simp: series_gt_def)
next
  case False
  then have "series_gt L a b =
      bindE (astype_float L a) (\<lambda>xs. bindE (astype_float L b) (\<lambda>ys. Inr (map2 fgt xs ys)))"
    by (auto simp: series_gt_def split: column.splits)
  with assms(1) obtain xs ys where x: "astype_float L a = Inr xs" and y: "astype_float L b = Inr ys"
    and f: "flag = map2 fgt xs ys"
    by auto
  have l: "length xs = n" "length ys = n"
    using astype_float_len [OF x] astype_float_len [OF y] assms(2,3) by simp_all
  have "flag ! i = fgt (to_f L (cell a i)) (to_f L (cell b i))"
    using astype_float_nth [OF x] astype_float_nth [OF y] assms(2-4) l by (simp add: f)
  also have "\<dots> = np_gt L (cell a i) (cell b i)"
    using False astype_float_numeric [OF x] astype_float_numeric [OF y]
    by (cases a; cases b) auto
  finally show ?thesis .
qed

lemma sum_axis1_five_cell:
  assumes s: "sum_axis1 L n [(n1, c1), (n2, c2), (n3, c3), (n4, c4), (n5, c5)] = Inr s"
    and l: "col_len c1 = n" "col_len c2 = n" "col_len c3 = n" "col_len c4 = n" "col_len c5 = n"
    and i: "i < n"
  shows "numeric s \<and>
         cell s i = row_sum L [cell c1 i, cell c2 i, cell c3 i, cell c4 i, cell c5 i]"
  using sum_axis1_cases [OF s list.distinct(2)]
proof (elim disjE exE conjE)
  fix ws wss
  assume m: "map snd [(n1, c1), (n2, c2), (n3, c3), (n4, c4), (n5, c5)] = map I64Col (ws # wss)"
    and s': "s = I64Col (foldl (map2 (+)) ws wss)"
  from m obtain b c d e where w: "wss = [b, c, d, e]"
    and c: "c1 = I64Col ws" "c2 = I64Col b" "c3 = I64Col c" "c4 = I64Col d" "c5 = I64Col e"
    by (auto simp: Cons_eq_map_conv)
  show ?thesis using l i by (simp add: s' w c row_sum_def)
next
  fix xs xss
  assume ni: "\<exists>kv\<in>set [(n1, c1), (n2, c2), (n3, c3), (n4, c4), (n5, c5)]. \<forall>ws. snd kv \<noteq> I64Col ws"
    and m: "map (astype_float L \<circ> snd) [(n1, c1), (n2, c2), (n3, c3), (n4, c4), (n5, c5)] =
              map Inr (xs # xss)"
    and s': "s = NumCol (foldl (map2 (fadd L)) (map nan_to_zero xs) (map (map nan_to_zero) xss))"
  from m obtain b c d e where w: "xss = [b, c, d, e]"
    and c: "astype_float L c1 = Inr xs" "astype_float L c2 = Inr b" "astype_float L c3 = Inr c"
      "astype_float L c4 = Inr d" "astype_float L c5 = Inr e"
    by (auto simp: Cons_eq_map_conv)
  have len: "length xs = n" "length b = n" "length c = n" "length d = n" "length e = n"
    using c l by (auto dest!: astype_float_len)
  have nth: "xs ! i = to_f L (cell c1 i)" "b ! i = to_f L (cell c2 i)"
    "c ! i = to_f L (cell c3 i)" "d ! i = to_f L (cell c4 i)" "e ! i = to_f L (cell c5 i)"
    using c l i by (auto dest!: astype_float_nth [where i = i])
  have "\<not> list_all is_int [cell c1 i, cell c2 i, cell c3 i, cell c4 i, cell c5 i]"
  proof -
    from ni obtain x where x: "x \<in> {c1, c2, c3, c4, c5}" "\<forall>ws. x \<noteq> I64Col ws" by auto
    then have "numeric x" using c by (auto dest: astype_float_numeric)
    with x(2) have "\<not> is_int (cell x i)" by (cases x) auto
    with x(1) show ?thesis by auto
  qed
  then show ?thesis using len i nth by (simp add: s' w row_sum_def)
qed

subsection \<open>Sums of int64 cells that do not overflow\<close>

lemma signed_take_bit_add_left:
  "signed_take_bit n (signed_take_bit n k + l) = signed_take_bit n (k + l)" for k l :: int
  using signed_take_bit_add [of n "signed_take_bit n k" l] signed_take_bit_add [of n k l]
  by simp

lemma sint_sum3:
  fixes a b c :: i64
  assumes "- (2 ^ 63) \<le> sint a + sint b + sint c" and "sint a + sint b + sint c < 2 ^ 63"
  shows "sint (a + b + c) = sint a + sint b + sint c"
proof -
  have "sint (a + b + c) = signed_take_bit 63 (sint a + sint b + sint c)"
    by (simp add: sint_word_add signed_take_bit_add_left)
  also have "\<dots> = sint a + sint b + sint c"
    using assms by (simp add: signed_take_bit_int_eq_self)
  finally show ?thesis .
qed

lemma sint_sum5:
  fixes a b c d e :: i64
  assumes "- (2 ^ 63) \<le> sint a + sint b + sint c + sint d + sint e"
    and "sint a + sint b + sint c + sint d + sint e < 2 ^ 63"
  shows "sint (a + b + c + d + e) = sint a + sint b + sint c + sint d + sint e"
proof -
  have "sint (a + b + c + d + e) = signed_take_bit 63 (sint a + sint b + sint c + sint d + sint e)"
    by (simp add: sint_word_add signed_take_bit_add_left)
  also have "\<dots> = sint a + sint b + sint c + sint d + sint e"
    using assms by (simp add: signed_take_bit_int_eq_self)
  finally show ?thesis .
qed

section \<open>The claims\<close>

text \<open>
  C1. For numeric columns \<open>num\<close> and \<open>den\<close> of equal length (int64 or float64),
  \<open>safe_div\<close> does not raise and returns a sequence of the same length that holds, at
  each position, NaN where the denominator converted to float compares equal to zero and
  the quotient of the two converted cells elsewhere. On two float64 columns \<open>to_f\<close> of a
  cell is the cell itself.
\<close>

theorem safe_div_elementwise:
  assumes "numeric num" and "numeric den" and "col_len num = col_len den"
  shows "\<exists>r. safe_div L num den = Inr r \<and> length r = col_len den \<and>
           (\<forall>i<col_len den.
              r ! i = (if feq0 (to_f L (cell den i)) then NaN
                       else fdiv (to_f L (cell num i)) (to_f L (cell den i))))"
proof -
  from assms(1) obtain xs where x: "astype_float L num = Inr xs" by (cases num) auto
  from assms(2) obtain ys where y: "astype_float L den = Inr ys" by (cases den) auto
  let ?r = "np_where (map feq0 ys) NaN (map2 fdiv xs ys)"
  have r: "safe_div L num den = Inr ?r" by (simp add: safe_div_def x y)
  have "length ?r = col_len den"
    using astype_float_len [OF x] astype_float_len [OF y] assms(3) by (simp add: np_where_def)
  moreover have "\<forall>i<col_len den.
      ?r ! i = (if feq0 (to_f L (cell den i)) then NaN
                else fdiv (to_f L (cell num i)) (to_f L (cell den i)))"
    using safe_div_nth [OF r assms(3) refl] by simp
  ultimately show ?thesis using r by blast
qed

theorem safe_div_elementwise_witness:
  "numeric (NumCol [Fin 5, Fin 1, Fin 0]) \<and> numeric (I64Col [105, 0, 0]) \<and>
   col_len (NumCol [Fin 5, Fin 1, Fin 0]) = col_len (I64Col [105, 0, 0]) \<and>
   (\<exists>r. safe_div demo_lib (NumCol [Fin 5, Fin 1, Fin 0]) (I64Col [105, 0, 0]) = Inr r \<and>
        length r = 3 \<and> r ! 0 = Fin (1 / 21) \<and> r ! 1 = NaN \<and> r ! 2 = NaN)"
  using safe_div_elementwise [of "NumCol [Fin 5, Fin 1, Fin 0]" "I64Col [105, 0, 0]" demo_lib]
  by (auto simp: i2f_def demo_lib_def)

text \<open>
  C2 (as stated it fails: the sum \<open>arr_flights + arr_cancelled + arr_diverted\<close> is
  computed in the dtype of the columns, and on int64 columns it wraps around, as the run
  after this theorem shows). Amended: when the three columns are present after
  normalization and the run reaches its end, the cleaned table holds them as numeric
  columns without a missing cell, and \<open>cancellation_rate\<close> is \<open>safe_div\<close> of
  \<open>arr_cancelled\<close> by the sum of the three, diverted flights included, as NumPy computes
  it: in every row the denominator is \<open>(arr_flights + arr_cancelled) + arr_diverted\<close>
  with each \<open>+\<close> on int64 (modulo \<open>2^64\<close>) when both operands are int64 and on float64
  otherwise, converted to float64; the rate is NaN where that denominator is zero and
  \<open>arr_cancelled\<close> divided by it elsewhere. In a row where the three cells are int64
  and their exact sum is in the int64 range, the denominator is that exact sum converted
  to float64.
\<close>

theorem cancellation_rate_value:
  assumes ok: "lib_ok L" and rect: "rect raw" and run: "run L entropy raw = Inr out"
    and present: "set [''arr_flights'', ''arr_cancelled'', ''arr_diverted'']
                    \<subseteq> set (columns (rename_columns raw))"
  shows "\<exists>fl cn dv r.
           getcol (cleaned out) ''arr_flights'' = Inr fl \<and>
           getcol (cleaned out) ''arr_cancelled'' = Inr cn \<and>
           getcol (cleaned out) ''arr_diverted'' = Inr dv \<and>
           getcol (cleaned out) ''cancellation_rate'' = Inr (NumCol r) \<and>
           clean fl \<and> clean cn \<and> clean dv \<and>
           col_len fl = nrows raw \<and> col_len cn = nrows raw \<and> col_len dv = nrows raw \<and>
           length r = nrows raw \<and>
           (\<exists>s1 total. series_add L fl cn = Inr s1 \<and> series_add L s1 dv = Inr total \<and>
              safe_div L cn total = Inr r) \<and>
           (\<forall>i<nrows raw.
              r ! i = (let total = to_f L (np_add L (np_add L (cell fl i) (cell cn i)) (cell dv i))
                       in if feq0 total then NaN else fdiv (to_f L (cell cn i)) total)) \<and>
           (\<forall>i<nrows raw. \<forall>x y z.
              cell fl i = I x \<and> cell cn i = I y \<and> cell dv i = I z \<and>
              - (2 ^ 63) \<le> sint x + sint y + sint z \<and> sint x + sint y + sint z < 2 ^ 63 \<longrightarrow>
              r ! i = (let total = fl_round L (of_int (sint x + sint y + sint z))
                       in if feq0 total then NaN else fdiv (fl_round L (of_int (sint y))) total))"
proof -
  let ?out = "cleaned out"
  from run_Inr [OF run] obtain df1 df2 df3 where
    s: "coerce_counts L (rename_columns raw) = Inr df1" "coerce_year_month L df1 = Inr df2"
      "derive_kpis L df2 = Inr df3" "quality_check L df3 = Inr (?out, checks out)"
    by blast
  from derive_kpis_Inr [OF s(3)] obtain d1 d2 d3 d4 d5 where
    k: "derive_year_month L df2 = Inr d1" "derive_delayed_rate L d1 = Inr d2"
      "derive_cancellation_rate L d2 = Inr d3" "derive_avg_delay L d3 = Inr d4"
      "for_each (derive_cause_share_ct L) causes d4 = Inr d5"
      "for_each (derive_cause_share_min L) causes d5 = Inr df3"
    by blast
  note e1 = derive_year_month_effect [OF k(1)]
  note e2 = derive_delayed_rate_effect [OF k(2)]
  note e4 = derive_avg_delay_effect [OF k(4)]
  note e5 = cause_share_ct_loop_effect [OF k(5)]
  note e6 = cause_share_min_loop_effect [OF k(6)]
  note eq = quality_check_effect [OF s(4)]
  have c2: "columns df2 = columns (rename_columns raw)"
    using coerce_counts_columns [OF s(1)] coerce_year_month_columns [OF s(2)] by simp
  have "set (columns df2) \<subseteq> set (columns d1)" "set (columns d1) \<subseteq> set (columns d2)"
    using effect_columns [OF e1] effect_columns [OF e2] by simp_all
  then have g: "set [''arr_flights'', ''arr_cancelled'', ''arr_diverted''] \<subseteq> set (columns d2)"
    using present c2 by auto
  from derive_cancellation_rate_fired [OF k(3) g] obtain fl cn dv s1 total r where
    v: "getcol d2 ''arr_flights'' = Inr fl" "getcol d2 ''arr_cancelled'' = Inr cn"
      "getcol d2 ''arr_diverted'' = Inr dv"
    and sa: "series_add L fl cn = Inr s1" "series_add L s1 dv = Inr total"
    and r: "safe_div L cn total = Inr r"
    and d3: "d3 = setcol d2 ''cancellation_rate'' (NumCol r)"
    by blast
  have src: "getcol ?out c = getcol d2 c \<and> getcol df1 c = getcol d2 c"
    if "c \<in> {''arr_flights'', ''arr_cancelled'', ''arr_diverted''}" for c
  proof -
    have sn: "c \<in> set source_names"
      using that by (auto simp: source_names_def count_cols_def)
    have "getcol d1 c = getcol df2 c" using that by (intro effect_frame [OF e1]) auto
    moreover have "getcol d2 c = getcol d1 c" using that by (intro effect_frame [OF e2]) auto
    moreover have "getcol df3 c = getcol df2 c" by (rule kpis_source_frame [OF s(3) sn])
    moreover have "getcol ?out c = getcol df3 c" using that by (intro effect_frame [OF eq]) auto
    moreover have "getcol df2 c = getcol df1 c"
      using that by (intro effect_frame [OF coerce_year_month_effect [OF s(2)]]) auto
    ultimately show ?thesis by simp
  qed
  have cl: "clean col"
    if "c \<in> {''arr_flights'', ''arr_cancelled'', ''arr_diverted''}" "getcol d2 c = Inr col"
    for c col
  proof -
    have "c \<in> set (count_cols @ delay_min_cols)" using that(1) by (auto simp: count_cols_def)
    moreover have "getcol df1 c = Inr col" using src [OF that(1)] that(2) by simp
    ultimately show ?thesis by (rule coerce_counts_clean [OF s(1)])
  qed
  have "getcol d4 ''cancellation_rate'' = getcol d3 ''cancellation_rate''"
    by (intro effect_frame [OF e4]) simp
  moreover have "getcol d5 ''cancellation_rate'' = getcol d4 ''cancellation_rate''"
    by (intro effect_frame [OF e5]) (simp add: causes_def)
  moreover have "getcol df3 ''cancellation_rate'' = getcol d5 ''cancellation_rate''"
    by (intro effect_frame [OF e6]) (simp add: causes_def)
  moreover have "getcol ?out ''cancellation_rate'' = getcol df3 ''cancellation_rate''"
    by (intro effect_frame [OF eq]) simp
  ultimately have fr: "getcol ?out ''cancellation_rate'' = getcol d3 ''cancellation_rate''"
    by simp
  have "''cancellation_rate'' \<in> set (columns d3)" by (simp add: d3 columns_setcol)
  then have "''cancellation_rate'' \<in> set (columns ?out)"
    using effect_columns [OF e4] effect_columns [OF e5] effect_columns [OF e6]
      effect_columns [OF eq] by blast
  from run_getcol [OF run this] fr obtain col where "getcol d3 ''cancellation_rate'' = Inr col"
    by auto
  then have cr: "getcol ?out ''cancellation_rate'' = Inr (NumCol r)"
    using fr by (simp add: d3 getcol_setcol_same split: if_splits)
  from run_shape [OF run ok rect] have sh: "rect ?out" "nrows ?out = nrows raw" by simp_all
  have o: "getcol ?out ''arr_flights'' = Inr fl" "getcol ?out ''arr_cancelled'' = Inr cn"
    "getcol ?out ''arr_diverted'' = Inr dv"
    using v src by simp_all
  have c: "clean fl" "clean cn" "clean dv"
    using cl [OF _ v(1)] cl [OF _ v(2)] cl [OF _ v(3)] by simp_all
  have l: "col_len fl = nrows raw" "col_len cn = nrows raw" "col_len dv = nrows raw"
    "length r = nrows raw"
    using rect_col_len [OF sh(1) o(1)] rect_col_len [OF sh(1) o(2)] rect_col_len [OF sh(1) o(3)]
      rect_col_len [OF sh(1) cr] sh(2) by simp_all
  have l1: "col_len s1 = nrows raw" by (rule series_add_len [OF sa(1) l(1,2)])
  have lt: "col_len total = nrows raw" by (rule series_add_len [OF sa(2) l1 l(3)])
  have el: "r ! i = (let total = to_f L (np_add L (np_add L (cell fl i) (cell cn i)) (cell dv i))
                     in if feq0 total then NaN else fdiv (to_f L (cell cn i)) total)"
    if i: "i < nrows raw" for i
    using series_add_cell [OF sa(1) l(1,2) i] series_add_cell [OF sa(2) l1 l(3) i]
      safe_div_nth [OF r l(2) lt i]
    by (simp add: Let_def)
  have ex: "r ! i = (let total = fl_round L (of_int (sint x + sint y + sint z))
                     in if feq0 total then NaN else fdiv (fl_round L (of_int (sint y))) total)"
    if i: "i < nrows raw" and xyz: "cell fl i = I x" "cell cn i = I y" "cell dv i = I z"
      and rg: "- (2 ^ 63) \<le> sint x + sint y + sint z" "sint x + sint y + sint z < 2 ^ 63"
    for i x y z
    using el [OF i] sint_sum3 [OF rg] by (simp add: xyz i2f_def Let_def)
  from o cr c l sa r el ex show ?thesis by blast
qed

theorem cancellation_rate_value_witness:
  "lib_ok demo_lib \<and>
   rect [(''Arr Flights'', I64Col [10, 0, 1]), (''arr_cancelled'', I64Col [2, 0, 1]),
      (''arr-diverted'', ObjCol [Some ''4'', None, Some ''2''])] \<and>
   set [''arr_flights'', ''arr_cancelled'', ''arr_diverted''] \<subseteq>
     set (columns (rename_columns
       [(''Arr Flights'', I64Col [10, 0, 1]), (''arr_cancelled'', I64Col [2, 0, 1]),
        (''arr-diverted'', ObjCol [Some ''4'', None, Some ''2''])])) \<and>
   (\<exists>out. run demo_lib 7
       [(''Arr Flights'', I64Col [10, 0, 1]), (''arr_cancelled'', I64Col [2, 0, 1]),
        (''arr-diverted'', ObjCol [Some ''4'', None, Some ''2''])] = Inr out \<and>
     cleaned out =
       [(''arr_flights'', I64Col [10, 0, 1]), (''arr_cancelled'', I64Col [2, 0, 1]),
        (''arr_diverted'', NumCol [Fin 4, Fin 0, Fin 2]), (''cancellation_rate'', NumCol [Fin (1
        / 8), NaN, Fin (1 / 4)])] \<and>
     (\<exists>r. getcol (cleaned out) ''cancellation_rate'' = Inr (NumCol r) \<and> length r = 3 \<and>
          r ! 0 = Fin (2 / (10 + 2 + 4)) \<and> r ! 1 = NaN \<and> r ! 2 = Fin (1 / (1 + 1 + 2)))) \<and>
   (\<exists>out. run demo_lib 7
       [(''Arr Flights'', I64Col [10, 0, 1]), (''arr_cancelled'', I64Col [2, 0, 1]),
        (''arr-diverted'', I64Col [4, 0, 2])] = Inr out \<and>
     cleaned out =
       [(''arr_flights'', I64Col [10, 0, 1]), (''arr_cancelled'', I64Col [2, 0, 1]),
        (''arr_diverted'', I64Col [4, 0, 2]), (''cancellation_rate'', NumCol [Fin (1 / 8), NaN,
        Fin (1 / 4)])] \<and>
     (\<exists>r. getcol (cleaned out) ''cancellation_rate'' = Inr (NumCol r) \<and> length r = 3 \<and>
          r ! 0 = Fin (2 / (10 + 2 + 4)) \<and> r ! 1 = NaN \<and> r ! 2 = Fin (1 / (1 + 1 + 2))))"
proof -
  let ?raw = "[(''Arr Flights'', I64Col [10, 0, 1]), (''arr_cancelled'', I64Col [2, 0, 1]),
     (''arr-diverted'', ObjCol [Some ''4'', None, Some ''2''])]"
  let ?out = "\<lparr>cleaned = [(''arr_flights'', I64Col [10, 0, 1]), (''arr_cancelled'', I64Col [2, 0,
     1]), (''arr_diverted'', NumCol [Fin 4, Fin 0, Fin 2]), (''cancellation_rate'', NumCol [Fin
     (1 / 8), NaN, Fin (1 / 4)])], sample = [(''arr_flights'', I64Col [10, 0, 1]),
     (''arr_cancelled'', I64Col [2, 0, 1]), (''arr_diverted'', NumCol [Fin 4, Fin 0, Fin 2]),
     (''cancellation_rate'', NumCol [Fin (1 / 8), NaN, Fin (1 / 4)])], dictionary =
     [\<lparr>d_column = ''arr_cancelled'', d_dtype = Dint64, d_null_pct = Fin 0, d_example =
     Some (VInt 2)\<rparr>, \<lparr>d_column = ''arr_diverted'', d_dtype = Dfloat64, d_null_pct
     = Fin 0, d_example = Some (VNum (Fin 4))\<rparr>, \<lparr>d_column = ''arr_flights'',
     d_dtype = Dint64, d_null_pct = Fin 0, d_example = Some (VInt 10)\<rparr>, \<lparr>d_column
     = ''cancellation_rate'', d_dtype = Dfloat64, d_null_pct = Fin (3333 / 100), d_example =
     Some (VNum (Fin (1 / 8)))\<rparr>], checks = []\<rparr>"
  let ?raw2 = "[(''Arr Flights'', I64Col [10, 0, 1]), (''arr_cancelled'', I64Col [2, 0, 1]),
     (''arr-diverted'', I64Col [4, 0, 2])]"
  let ?out2 = "\<lparr>cleaned = [(''arr_flights'', I64Col [10, 0, 1]), (''arr_cancelled'', I64Col [2, 0,
     1]), (''arr_diverted'', I64Col [4, 0, 2]), (''cancellation_rate'', NumCol [Fin (1 / 8),
     NaN, Fin (1 / 4)])], sample = [(''arr_flights'', I64Col [10, 0, 1]), (''arr_cancelled'',
     I64Col [2, 0, 1]), (''arr_diverted'', I64Col [4, 0, 2]), (''cancellation_rate'', NumCol
     [Fin (1 / 8), NaN, Fin (1 / 4)])], dictionary = [\<lparr>d_column = ''arr_cancelled'',
     d_dtype = Dint64, d_null_pct = Fin 0, d_example = Some (VInt 2)\<rparr>, \<lparr>d_column =
     ''arr_diverted'', d_dtype = Dint64, d_null_pct = Fin 0, d_example = Some (VInt 4)\<rparr>,
     \<lparr>d_column = ''arr_flights'', d_dtype = Dint64, d_null_pct = Fin 0, d_example = Some
     (VInt 10)\<rparr>, \<lparr>d_column = ''cancellation_rate'', d_dtype = Dfloat64, d_null_pct
     = Fin (3333 / 100), d_example = Some (VNum (Fin (1 / 8)))\<rparr>], checks = []\<rparr>"
  have h: "run demo_lib 7 ?raw = Inr ?out" by code_simp
  have h2: "run demo_lib 7 ?raw2 = Inr ?out2" by code_simp
  have r: "rect ?raw" by (simp add: rect_def nrows_def)
  have r2: "rect ?raw2" by (simp add: rect_def nrows_def)
  have n: "nrows ?raw = 3" by (simp add: nrows_def)
  have n2: "nrows ?raw2 = 3" by (simp add: nrows_def)
  have p: "set [''arr_flights'', ''arr_cancelled'', ''arr_diverted'']
             \<subseteq> set (columns (rename_columns ?raw))"
    by code_simp
  have p2: "set [''arr_flights'', ''arr_cancelled'', ''arr_diverted'']
             \<subseteq> set (columns (rename_columns ?raw2))"
    by code_simp
  have w1: "\<exists>r. getcol (cleaned ?out) ''cancellation_rate'' = Inr (NumCol r) \<and> length r = 3 \<and>
          r ! 0 = Fin (2 / (10 + 2 + 4)) \<and> r ! 1 = NaN \<and> r ! 2 = Fin (1 / (1 + 1 + 2))"
  proof -
    from cancellation_rate_value [OF demo_lib_ok r h p] obtain fl cn dv r where
      g: "getcol (cleaned ?out) ''arr_flights'' = Inr fl"
        "getcol (cleaned ?out) ''arr_cancelled'' = Inr cn"
        "getcol (cleaned ?out) ''arr_diverted'' = Inr dv"
      and cr: "getcol (cleaned ?out) ''cancellation_rate'' = Inr (NumCol r)"
      and l: "length r = nrows ?raw"
      and e: "\<forall>i<nrows ?raw.
                r ! i = (let total = to_f demo_lib (np_add demo_lib
                                       (np_add demo_lib (cell fl i) (cell cn i)) (cell dv i))
                         in if feq0 total then NaN else fdiv (to_f demo_lib (cell cn i)) total)"
      by blast
    have "getcol (cleaned ?out) ''arr_flights'' = Inr (I64Col [10, 0, 1])"
      "getcol (cleaned ?out) ''arr_cancelled'' = Inr (I64Col [2, 0, 1])"
      "getcol (cleaned ?out) ''arr_diverted'' = Inr (NumCol [Fin 4, Fin 0, Fin 2])"
      by code_simp+
    with g have v: "fl = I64Col [10, 0, 1]" "cn = I64Col [2, 0, 1]"
      "dv = NumCol [Fin 4, Fin 0, Fin 2]"
      by simp_all
    from e n have "r ! 0 = Fin (2 / (10 + 2 + 4))" "r ! 1 = NaN" "r ! 2 = Fin (1 / (1 + 1 + 2))"
      by (simp_all add: v i2f_def demo_lib_def)
    with cr l n show ?thesis by auto
  qed
  have w2: "\<exists>r. getcol (cleaned ?out2) ''cancellation_rate'' = Inr (NumCol r) \<and> length r = 3 \<and>
          r ! 0 = Fin (2 / (10 + 2 + 4)) \<and> r ! 1 = NaN \<and> r ! 2 = Fin (1 / (1 + 1 + 2))"
  proof -
    from cancellation_rate_value [OF demo_lib_ok r2 h2 p2] obtain fl cn dv r where
      g: "getcol (cleaned ?out2) ''arr_flights'' = Inr fl"
        "getcol (cleaned ?out2) ''arr_cancelled'' = Inr cn"
        "getcol (cleaned ?out2) ''arr_diverted'' = Inr dv"
      and cr: "getcol (cleaned ?out2) ''cancellation_rate'' = Inr (NumCol r)"
      and l: "length r = nrows ?raw2"
      and e: "\<forall>i<nrows ?raw2. \<forall>x y z.
              cell fl i = I x \<and> cell cn i = I y \<and> cell dv i = I z \<and>
              - (2 ^ 63) \<le> sint x + sint y + sint z \<and> sint x + sint y + sint z < 2 ^ 63 \<longrightarrow>
              r ! i = (let total = fl_round demo_lib (of_int (sint x + sint y + sint z))
                       in if feq0 total then NaN
                          else fdiv (fl_round demo_lib (of_int (sint y))) total)"
      by blast
    have "getcol (cleaned ?out2) ''arr_flights'' = Inr (I64Col [10, 0, 1])"
      "getcol (cleaned ?out2) ''arr_cancelled'' = Inr (I64Col [2, 0, 1])"
      "getcol (cleaned ?out2) ''arr_diverted'' = Inr (I64Col [4, 0, 2])"
      by code_simp+
    with g have v: "fl = I64Col [10, 0, 1]" "cn = I64Col [2, 0, 1]" "dv = I64Col [4, 0, 2]"
      by simp_all
    from e n2 have "r ! 0 = Fin (2 / (10 + 2 + 4))" "r ! 1 = NaN" "r ! 2 = Fin (1 / (1 + 1 + 2))"
      by (simp_all add: v demo_lib_def)
    with cr l n2 show ?thesis by auto
  qed
  from demo_lib_ok r p h w1 h2 w2 show ?thesis by simp
qed

text \<open>
  Three int64 columns whose row sum is \<open>2^64\<close>: the int64 sum wraps around to zero
  and the rate is NaN, although the sum of the three counts is not zero.
\<close>

theorem cancellation_rate_wraps:
  "run demo_lib 7
     [(''arr_flights'', I64Col [9223372036854775807]), (''arr_cancelled'', I64Col
      [9223372036854775807]), (''arr_diverted'', I64Col [2])] =
   Inr \<lparr>cleaned = [(''arr_flights'', I64Col [9223372036854775807]), (''arr_cancelled'',
        I64Col [9223372036854775807]), (''arr_diverted'', I64Col [2]), (''cancellation_rate'',
        NumCol [NaN])], sample = [(''arr_flights'', I64Col [9223372036854775807]),
        (''arr_cancelled'', I64Col [9223372036854775807]), (''arr_diverted'', I64Col [2]),
        (''cancellation_rate'', NumCol [NaN])], dictionary = [\<lparr>d_column =
        ''arr_cancelled'', d_dtype = Dint64, d_null_pct = Fin 0, d_example = Some (VInt
        9223372036854775807)\<rparr>, \<lparr>d_column = ''arr_diverted'', d_dtype = Dint64,
        d_null_pct = Fin 0, d_example = Some (VInt 2)\<rparr>, \<lparr>d_column =
        ''arr_flights'', d_dtype = Dint64, d_null_pct = Fin 0, d_example = Some (VInt
        9223372036854775807)\<rparr>, \<lparr>d_column = ''cancellation_rate'', d_dtype =
        Dfloat64, d_null_pct = Fin 100, d_example = None\<rparr>], checks = []\<rparr> \<and>
   sint (9223372036854775807 :: i64) + sint (9223372036854775807 :: i64) + sint (2 :: i64) =
     18446744073709551616 \<and>
   (9223372036854775807 :: i64) + 9223372036854775807 + 2 = 0"
proof (intro conjI)
  show "run demo_lib 7
     [(''arr_flights'', I64Col [9223372036854775807]), (''arr_cancelled'', I64Col
      [9223372036854775807]), (''arr_diverted'', I64Col [2])] =
   Inr \<lparr>cleaned = [(''arr_flights'', I64Col [9223372036854775807]), (''arr_cancelled'',
        I64Col [9223372036854775807]), (''arr_diverted'', I64Col [2]), (''cancellation_rate'',
        NumCol [NaN])], sample = [(''arr_flights'', I64Col [9223372036854775807]),
        (''arr_cancelled'', I64Col [9223372036854775807]), (''arr_diverted'', I64Col [2]),
        (''cancellation_rate'', NumCol [NaN])], dictionary = [\<lparr>d_column =
        ''arr_cancelled'', d_dtype = Dint64, d_null_pct = Fin 0, d_example = Some (VInt
        9223372036854775807)\<rparr>, \<lparr>d_column = ''arr_diverted'', d_dtype = Dint64,
        d_null_pct = Fin 0, d_example = Some (VInt 2)\<rparr>, \<lparr>d_column =
        ''arr_flights'', d_dtype = Dint64, d_null_pct = Fin 0, d_example = Some (VInt
        9223372036854775807)\<rparr>, \<lparr>d_column = ''cancellation_rate'', d_dtype =
        Dfloat64, d_null_pct = Fin 100, d_example = None\<rparr>], checks = []\<rparr>"
    by code_simp
  show "sint (9223372036854775807 :: i64) + sint (9223372036854775807 :: i64) + sint (2 :: i64) =
     18446744073709551616"
    by simp
  show "(9223372036854775807 :: i64) + 9223372036854775807 + 2 = 0"
    by simp
qed

text \<open>
  C3. \<open>to_snake\<close> is not idempotent: \<open>replace("__", "_")\<close> is a single pass, so a run of
  three underscores (here from \<open>###\<close>) is left as two, and normalizing the result again
  changes it.
\<close>

theorem to_snake_twice_differs:
  "to_snake ''a###b'' = ''a__b'' \<and> to_snake (to_snake ''a###b'') = ''a_b''"
  by code_simp

text \<open>
  C4. With \<open>year\<close> and \<open>month\<close> present and one year missing (an empty field, read as
  NaN and coerced to \<open><NA>\<close>), the script stops with ValueError at \<open>.astype("int")\<close>
  instead of deriving an undefined \<open>year_month\<close> for that row.
\<close>

theorem year_month_raises_on_missing:
  "run L entropy [(''year'', NumCol [NaN, Fin 2023]), (''month'', I64Col [1, 2])] =
     Inl ValueError"
  by code_simp

text \<open>
  C5 (as stated it fails: the row sum of the five cause counts is computed in the dtype
  of the columns, and on int64 columns it wraps around, as the run after this theorem
  shows). Amended: when the five cause-count columns and \<open>arr_del15\<close> are present
  after normalization and the run reaches its end, the cleaned table holds the six as
  numeric columns without a missing cell, the flag of a row is true exactly when the row
  sum of the five is greater than \<open>arr_del15\<close> as pandas computes both (the sum on
  int64, modulo \<open>2^64\<close>, when all five columns are int64, and on float64 after
  converting every cell otherwise; the comparison on int64 when both sides are int64 and
  on float64 otherwise), and the reported count is the number of those rows. In a row
  where the six cells are int64 and the exact sum of the five is in the int64 range, the
  flag is true exactly when that sum is strictly greater than \<open>arr_del15\<close>; a row where
  the two are equal is not flagged.
\<close>

theorem quality_flag_and_count:
  assumes ok: "lib_ok L" and rect: "rect raw" and run: "run L entropy raw = Inr out"
    and present: "set req \<subseteq> set (columns (rename_columns raw))"
  shows "\<exists>a b c d e del flag.
           getcol (cleaned out) ''carrier_ct'' = Inr a \<and>
           getcol (cleaned out) ''weather_ct'' = Inr b \<and>
           getcol (cleaned out) ''nas_ct'' = Inr c \<and>
           getcol (cleaned out) ''security_ct'' = Inr d \<and>
           getcol (cleaned out) ''late_aircraft_ct'' = Inr e \<and>
           getcol (cleaned out) ''arr_del15'' = Inr del \<and>
           clean a \<and> clean b \<and> clean c \<and> clean d \<and> clean e \<and> clean del \<and>
           getcol (cleaned out) ''cause_counts_exceed_delayed_flag'' = Inr (BoolCol flag) \<and>
           length flag = nrows raw \<and>
           (\<forall>i<nrows raw.
              flag ! i =
                np_gt L (row_sum L [cell a i, cell b i, cell c i, cell d i, cell e i])
                  (cell del i)) \<and>
           (\<forall>i<nrows raw. \<forall>x1 x2 x3 x4 x5 y.
              cell a i = I x1 \<and> cell b i = I x2 \<and> cell c i = I x3 \<and> cell d i = I x4 \<and>
              cell e i = I x5 \<and> cell del i = I y \<and>
              - (2 ^ 63) \<le> sint x1 + sint x2 + sint x3 + sint x4 + sint x5 \<and>
              sint x1 + sint x2 + sint x3 + sint x4 + sint x5 < 2 ^ 63 \<longrightarrow>
              flag ! i = (sint y < sint x1 + sint x2 + sint x3 + sint x4 + sint x5)) \<and>
           checks out =
             [(''rows_where_cause_counts_exceed_delayed'',
               int (card {i. i < nrows raw \<and>
                  np_gt L (row_sum L [cell a i, cell b i, cell c i, cell d i, cell e i])
                    (cell del i)}))]"
proof -
  let ?out = "cleaned out"
  let ?flag = "''cause_counts_exceed_delayed_flag''"
  from run_Inr [OF run] obtain df1 df2 df3 where
    s: "coerce_counts L (rename_columns raw) = Inr df1" "coerce_year_month L df1 = Inr df2"
      "derive_kpis L df2 = Inr df3" "quality_check L df3 = Inr (?out, checks out)"
    by blast
  note eq = quality_check_effect [OF s(4)]
  have c2: "columns df2 = columns (rename_columns raw)"
    using coerce_counts_columns [OF s(1)] coerce_year_month_columns [OF s(2)] by simp
  have "set (columns df2) \<subseteq> set (columns df3)"
    using effect_columns [OF derive_kpis_effect [OF s(3)]] by simp
  then have g: "set req \<subseteq> set (columns df3)" using present c2 by auto
  from quality_check_fired [OF s(4) g] obtain a b c d e del sm flag where
    v: "getcol df3 ''carrier_ct'' = Inr a" "getcol df3 ''weather_ct'' = Inr b"
      "getcol df3 ''nas_ct'' = Inr c" "getcol df3 ''security_ct'' = Inr d"
      "getcol df3 ''late_aircraft_ct'' = Inr e" "getcol df3 ''arr_del15'' = Inr del"
    and sm: "sum_axis1 L (nrows df3)
               [(''carrier_ct'', a), (''weather_ct'', b), (''nas_ct'', c), (''security_ct'', d),
                (''late_aircraft_ct'', e)] = Inr sm"
    and fg: "series_gt L sm del = Inr flag"
    and out: "?out = setcol df3 ?flag (BoolCol flag)"
    and ck: "checks out = [(''rows_where_cause_counts_exceed_delayed'',
                            int (length (filter (\<lambda>b. b) flag)))]"
    by blast
  have cl: "clean col" if "x \<in> set req" and "getcol df3 x = Inr col" for x col
  proof -
    have d: "x \<in> set (count_cols @ delay_min_cols)"
      using that(1) by (auto simp: req_def count_cols_def)
    then have sn: "x \<in> set source_names" by (simp add: source_names_def)
    have "x \<notin> {''year'', ''month''}" using that(1) by (auto simp: req_def)
    then have "getcol df2 x = getcol df1 x"
      by (rule effect_frame [OF coerce_year_month_effect [OF s(2)]])
    then have "getcol df1 x = Inr col"
      using kpis_source_frame [OF s(3) sn] that(2) by simp
    from coerce_counts_clean [OF s(1) d this] show ?thesis .
  qed
  have c: "clean a" "clean b" "clean c" "clean d" "clean e" "clean del"
    using cl [OF _ v(1)] cl [OF _ v(2)] cl [OF _ v(3)] cl [OF _ v(4)] cl [OF _ v(5)]
      cl [OF _ v(6)]
    by (simp_all add: req_def)
  have src: "getcol ?out x = getcol df3 x" if "x \<in> set req" for x
    using that by (intro effect_frame [OF eq]) (auto simp: req_def)
  have o: "getcol ?out ''carrier_ct'' = Inr a" "getcol ?out ''weather_ct'' = Inr b"
    "getcol ?out ''nas_ct'' = Inr c" "getcol ?out ''security_ct'' = Inr d"
    "getcol ?out ''late_aircraft_ct'' = Inr e" "getcol ?out ''arr_del15'' = Inr del"
    using v src by (simp_all add: req_def)
  have "?flag \<in> set (columns ?out)" by (simp add: out columns_setcol)
  from run_getcol [OF run this] obtain col where "getcol ?out ?flag = Inr col" by blast
  then have fl: "getcol ?out ?flag = Inr (BoolCol flag)"
    by (simp add: out getcol_setcol_same split: if_splits)
  from run_shape [OF run ok rect] have sh: "rect ?out" "nrows ?out = nrows raw" by simp_all
  have l: "col_len a = nrows raw" "col_len b = nrows raw" "col_len c = nrows raw"
    "col_len d = nrows raw" "col_len e = nrows raw" "col_len del = nrows raw"
    "length flag = nrows raw"
    using rect_col_len [OF sh(1) o(1)] rect_col_len [OF sh(1) o(2)] rect_col_len [OF sh(1) o(3)]
      rect_col_len [OF sh(1) o(4)] rect_col_len [OF sh(1) o(5)] rect_col_len [OF sh(1) o(6)]
      rect_col_len [OF sh(1) fl] sh(2) by simp_all
  have n3: "nrows df3 = nrows raw"
    using effect_rect [OF coerce_counts_effect [OF s(1)] ok]
      effect_rect [OF coerce_year_month_effect [OF s(2)] ok]
      effect_rect [OF derive_kpis_effect [OF s(3)] ok] rect
    by simp
  note sm' = sm [unfolded n3]
  have ls: "col_len sm = nrows raw"
    using l(1-5) by (intro sum_axis1_len [OF sm']) simp_all
  have el: "flag ! i =
      np_gt L (row_sum L [cell a i, cell b i, cell c i, cell d i, cell e i]) (cell del i)"
    if i: "i < nrows raw" for i
    using sum_axis1_five_cell [OF sm' l(1-5) i] series_gt_nth [OF fg ls l(6) i] by simp
  have ex: "flag ! i = (sint y < sint x1 + sint x2 + sint x3 + sint x4 + sint x5)"
    if i: "i < nrows raw"
      and x: "cell a i = I x1" "cell b i = I x2" "cell c i = I x3" "cell d i = I x4"
        "cell e i = I x5" "cell del i = I y"
      and rg: "- (2 ^ 63) \<le> sint x1 + sint x2 + sint x3 + sint x4 + sint x5"
        "sint x1 + sint x2 + sint x3 + sint x4 + sint x5 < 2 ^ 63"
    for i x1 x2 x3 x4 x5 y
    using el [OF i] sint_sum5 [OF rg] by (simp add: x row_sum_def)
  have "length (filter (\<lambda>b. b) flag) = card {i. i < length flag \<and> flag ! i}"
    by (rule length_filter_conv_card)
  also have "{i. i < length flag \<and> flag ! i} =
      {i. i < nrows raw \<and>
          np_gt L (row_sum L [cell a i, cell b i, cell c i, cell d i, cell e i]) (cell del i)}"
    using el l(7) by auto
  finally have cnt: "checks out =
      [(''rows_where_cause_counts_exceed_delayed'',
        int (card {i. i < nrows raw \<and>
          np_gt L (row_sum L [cell a i, cell b i, cell c i, cell d i, cell e i]) (cell del i)}))]"
    using ck by simp
  from o c fl l(7) el ex cnt show ?thesis by blast
qed

theorem quality_flag_and_count_witness:
  "lib_ok demo_lib \<and>
   rect [(''carrier_ct'', I64Col [10, 1]), (''weather_ct'', I64Col [5, 0]), (''nas_ct'', NumCol
      [Fin 3, NaN]), (''security_ct'', I64Col [0, 0]), (''late_aircraft_ct'', I64Col [2, 0]),
      (''arr_del15'', I64Col [20, 0])] \<and>
   set req \<subseteq> set (columns (rename_columns
       [(''carrier_ct'', I64Col [10, 1]), (''weather_ct'', I64Col [5, 0]), (''nas_ct'', NumCol
        [Fin 3, NaN]), (''security_ct'', I64Col [0, 0]), (''late_aircraft_ct'', I64Col [2, 0]),
        (''arr_del15'', I64Col [20, 0])])) \<and>
   (\<exists>out. run demo_lib 7
       [(''carrier_ct'', I64Col [10, 1]), (''weather_ct'', I64Col [5, 0]), (''nas_ct'', NumCol
        [Fin 3, NaN]), (''security_ct'', I64Col [0, 0]), (''late_aircraft_ct'', I64Col [2, 0]),
        (''arr_del15'', I64Col [20, 0])] = Inr out \<and>
     cleaned out =
       [(''carrier_ct'', I64Col [10, 1]), (''weather_ct'', I64Col [5, 0]), (''nas_ct'', NumCol
        [Fin 3, Fin 0]), (''security_ct'', I64Col [0, 0]), (''late_aircraft_ct'', I64Col [2,
        0]), (''arr_del15'', I64Col [20, 0]), (''carrier_cause_share_ct'', NumCol [Fin (1 / 2),
        NaN]), (''weather_cause_share_ct'', NumCol [Fin (1 / 4), NaN]), (''nas_cause_share_ct'',
        NumCol [Fin (3 / 20), NaN]), (''security_cause_share_ct'', NumCol [Fin 0, NaN]),
        (''late_aircraft_cause_share_ct'', NumCol [Fin (1 / 10), NaN]),
        (''cause_counts_exceed_delayed_flag'', BoolCol [False, True])] \<and>
     checks out = [(''rows_where_cause_counts_exceed_delayed'', 1)] \<and>
     (\<exists>flag. getcol (cleaned out) ''cause_counts_exceed_delayed_flag'' = Inr (BoolCol flag) \<and>
          length flag = 2 \<and> flag ! 0 = False \<and> flag ! 1 = True)) \<and>
   (\<exists>out. run demo_lib 7
       [(''carrier_ct'', I64Col [10, 1]), (''weather_ct'', I64Col [5, 0]), (''nas_ct'', I64Col
        [3, 0]), (''security_ct'', I64Col [0, 0]), (''late_aircraft_ct'', I64Col [2, 0]),
        (''arr_del15'', I64Col [20, 0])] = Inr out \<and>
     cleaned out =
       [(''carrier_ct'', I64Col [10, 1]), (''weather_ct'', I64Col [5, 0]), (''nas_ct'', I64Col
        [3, 0]), (''security_ct'', I64Col [0, 0]), (''late_aircraft_ct'', I64Col [2, 0]),
        (''arr_del15'', I64Col [20, 0]), (''carrier_cause_share_ct'', NumCol [Fin (1 / 2),
        NaN]), (''weather_cause_share_ct'', NumCol [Fin (1 / 4), NaN]), (''nas_cause_share_ct'',
        NumCol [Fin (3 / 20), NaN]), (''security_cause_share_ct'', NumCol [Fin 0, NaN]),
        (''late_aircraft_cause_share_ct'', NumCol [Fin (1 / 10), NaN]),
        (''cause_counts_exceed_delayed_flag'', BoolCol [False, True])] \<and>
     checks out = [(''rows_where_cause_counts_exceed_delayed'', 1)] \<and>
     (\<exists>flag. getcol (cleaned out) ''cause_counts_exceed_delayed_flag'' = Inr (BoolCol flag) \<and>
          length flag = 2 \<and> flag ! 0 = False \<and> flag ! 1 = True))"
proof -
  let ?raw = "[(''carrier_ct'', I64Col [10, 1]), (''weather_ct'', I64Col [5, 0]), (''nas_ct'', NumCol
     [Fin 3, NaN]), (''security_ct'', I64Col [0, 0]), (''late_aircraft_ct'', I64Col [2, 0]),
     (''arr_del15'', I64Col [20, 0])]"
  let ?out = "\<lparr>cleaned = [(''carrier_ct'', I64Col [10, 1]), (''weather_ct'', I64Col [5, 0]),
     (''nas_ct'', NumCol [Fin 3, Fin 0]), (''security_ct'', I64Col [0, 0]),
     (''late_aircraft_ct'', I64Col [2, 0]), (''arr_del15'', I64Col [20, 0]),
     (''carrier_cause_share_ct'', NumCol [Fin (1 / 2), NaN]), (''weather_cause_share_ct'',
     NumCol [Fin (1 / 4), NaN]), (''nas_cause_share_ct'', NumCol [Fin (3 / 20), NaN]),
     (''security_cause_share_ct'', NumCol [Fin 0, NaN]), (''late_aircraft_cause_share_ct'',
     NumCol [Fin (1 / 10), NaN]), (''cause_counts_exceed_delayed_flag'', BoolCol [False,
     True])], sample = [(''carrier_ct'', I64Col [10, 1]), (''weather_ct'', I64Col [5, 0]),
     (''nas_ct'', NumCol [Fin 3, Fin 0]), (''security_ct'', I64Col [0, 0]),
     (''late_aircraft_ct'', I64Col [2, 0]), (''arr_del15'', I64Col [20, 0]),
     (''carrier_cause_share_ct'', NumCol [Fin (1 / 2), NaN]), (''weather_cause_share_ct'',
     NumCol [Fin (1 / 4), NaN]), (''nas_cause_share_ct'', NumCol [Fin (3 / 20), NaN]),
     (''security_cause_share_ct'', NumCol [Fin 0, NaN]), (''late_aircraft_cause_share_ct'',
     NumCol [Fin (1 / 10), NaN]), (''cause_counts_exceed_delayed_flag'', BoolCol [False,
     True])], dictionary = [\<lparr>d_column = ''arr_del15'', d_dtype = Dint64, d_null_pct = Fin
     0, d_example = Some (VInt 20)\<rparr>, \<lparr>d_column = ''carrier_cause_share_ct'',
     d_dtype = Dfloat64, d_null_pct = Fin 50, d_example = Some (VNum (Fin (1 / 2)))\<rparr>,
     \<lparr>d_column = ''carrier_ct'', d_dtype = Dint64, d_null_pct = Fin 0, d_example = Some
     (VInt 10)\<rparr>, \<lparr>d_column = ''cause_counts_exceed_delayed_flag'', d_dtype =
     Dbool, d_null_pct = Fin 0, d_example = Some (VBool False)\<rparr>, \<lparr>d_column =
     ''late_aircraft_cause_share_ct'', d_dtype = Dfloat64, d_null_pct = Fin 50, d_example = Some
     (VNum (Fin (1 / 10)))\<rparr>, \<lparr>d_column = ''late_aircraft_ct'', d_dtype = Dint64,
     d_null_pct = Fin 0, d_example = Some (VInt 2)\<rparr>, \<lparr>d_column =
     ''nas_cause_share_ct'', d_dtype = Dfloat64, d_null_pct = Fin 50, d_example = Some (VNum
     (Fin (3 / 20)))\<rparr>, \<lparr>d_column = ''nas_ct'', d_dtype = Dfloat64, d_null_pct =
     Fin 0, d_example = Some (VNum (Fin 3))\<rparr>, \<lparr>d_column =
     ''security_cause_share_ct'', d_dtype = Dfloat64, d_null_pct = Fin 50, d_example = Some
     (VNum (Fin 0))\<rparr>, \<lparr>d_column = ''security_ct'', d_dtype = Dint64, d_null_pct =
     Fin 0, d_example = Some (VInt 0)\<rparr>, \<lparr>d_column = ''weather_cause_share_ct'',
     d_dtype = Dfloat64, d_null_pct = Fin 50, d_example = Some (VNum (Fin (1 / 4)))\<rparr>,
     \<lparr>d_column = ''weather_ct'', d_dtype = Dint64, d_null_pct = Fin 0, d_example = Some
     (VInt 5)\<rparr>], checks = [(''rows_where_cause_counts_exceed_delayed'', 1)]\<rparr>"
  let ?raw2 = "[(''carrier_ct'', I64Col [10, 1]), (''weather_ct'', I64Col [5, 0]), (''nas_ct'', I64Col [3,
     0]), (''security_ct'', I64Col [0, 0]), (''late_aircraft_ct'', I64Col [2, 0]),
     (''arr_del15'', I64Col [20, 0])]"
  let ?out2 = "\<lparr>cleaned = [(''carrier_ct'', I64Col [10, 1]), (''weather_ct'', I64Col [5, 0]),
     (''nas_ct'', I64Col [3, 0]), (''security_ct'', I64Col [0, 0]), (''late_aircraft_ct'',
     I64Col [2, 0]), (''arr_del15'', I64Col [20, 0]), (''carrier_cause_share_ct'', NumCol [Fin
     (1 / 2), NaN]), (''weather_cause_share_ct'', NumCol [Fin (1 / 4), NaN]),
     (''nas_cause_share_ct'', NumCol [Fin (3 / 20), NaN]), (''security_cause_share_ct'', NumCol
     [Fin 0, NaN]), (''late_aircraft_cause_share_ct'', NumCol [Fin (1 / 10), NaN]),
     (''cause_counts_exceed_delayed_flag'', BoolCol [False, True])], sample = [(''carrier_ct'',
     I64Col [10, 1]), (''weather_ct'', I64Col [5, 0]), (''nas_ct'', I64Col [3, 0]),
     (''security_ct'', I64Col [0, 0]), (''late_aircraft_ct'', I64Col [2, 0]), (''arr_del15'',
     I64Col [20, 0]), (''carrier_cause_share_ct'', NumCol [Fin (1 / 2), NaN]),
     (''weather_cause_share_ct'', NumCol [Fin (1 / 4), NaN]), (''nas_cause_share_ct'', NumCol
     [Fin (3 / 20), NaN]), (''security_cause_share_ct'', NumCol [Fin 0, NaN]),
     (''late_aircraft_cause_share_ct'', NumCol [Fin (1 / 10), NaN]),
     (''cause_counts_exceed_delayed_flag'', BoolCol [False, True])], dictionary =
     [\<lparr>d_column = ''arr_del15'', d_dtype = Dint64, d_null_pct = Fin 0, d_example = Some
     (VInt 20)\<rparr>, \<lparr>d_column = ''carrier_cause_share_ct'', d_dtype = Dfloat64,
     d_null_pct = Fin 50, d_example = Some (VNum (Fin (1 / 2)))\<rparr>, \<lparr>d_column =
     ''carrier_ct'', d_dtype = Dint64, d_null_pct = Fin 0, d_example = Some (VInt 10)\<rparr>,
     \<lparr>d_column = ''cause_counts_exceed_delayed_flag'', d_dtype = Dbool, d_null_pct = Fin
     0, d_example = Some (VBool False)\<rparr>, \<lparr>d_column =
     ''late_aircraft_cause_share_ct'', d_dtype = Dfloat64, d_null_pct = Fin 50, d_example = Some
     (VNum (Fin (1 / 10)))\<rparr>, \<lparr>d_column = ''late_aircraft_ct'', d_dtype = Dint64,
     d_null_pct = Fin 0, d_example = Some (VInt 2)\<rparr>, \<lparr>d_column =
     ''nas_cause_share_ct'', d_dtype = Dfloat64, d_null_pct = Fin 50, d_example = Some (VNum
     (Fin (3 / 20)))\<rparr>, \<lparr>d_column = ''nas_ct'', d_dtype = Dint64, d_null_pct = Fin
     0, d_example = Some (VInt 3)\<rparr>, \<lparr>d_column = ''security_cause_share_ct'',
     d_dtype = Dfloat64, d_null_pct = Fin 50, d_example = Some (VNum (Fin 0))\<rparr>,
     \<lparr>d_column = ''security_ct'', d_dtype = Dint64, d_null_pct = Fin 0, d_example = Some
     (VInt 0)\<rparr>, \<lparr>d_column = ''weather_cause_share_ct'', d_dtype = Dfloat64,
     d_null_pct = Fin 50, d_example = Some (VNum (Fin (1 / 4)))\<rparr>, \<lparr>d_column =
     ''weather_ct'', d_dtype = Dint64, d_null_pct = Fin 0, d_example = Some (VInt 5)\<rparr>],
     checks = [(''rows_where_cause_counts_exceed_delayed'', 1)]\<rparr>"
  have h: "run demo_lib 7 ?raw = Inr ?out" by code_simp
  have h2: "run demo_lib 7 ?raw2 = Inr ?out2" by code_simp
  have r: "rect ?raw" by (simp add: rect_def nrows_def)
  have r2: "rect ?raw2" by (simp add: rect_def nrows_def)
  have n: "nrows ?raw = 2" by (simp add: nrows_def)
  have n2: "nrows ?raw2 = 2" by (simp add: nrows_def)
  have p: "set req \<subseteq> set (columns (rename_columns ?raw))" by code_simp
  have p2: "set req \<subseteq> set (columns (rename_columns ?raw2))" by code_simp
  have w1: "\<exists>flag. getcol (cleaned ?out) ''cause_counts_exceed_delayed_flag'' = Inr (BoolCol flag) \<and>
          length flag = 2 \<and> flag ! 0 = False \<and> flag ! 1 = True"
  proof -
    from quality_flag_and_count [OF demo_lib_ok r h p] obtain a b c d e del flag where
      g: "getcol (cleaned ?out) ''carrier_ct'' = Inr a"
        "getcol (cleaned ?out) ''weather_ct'' = Inr b"
        "getcol (cleaned ?out) ''nas_ct'' = Inr c"
        "getcol (cleaned ?out) ''security_ct'' = Inr d"
        "getcol (cleaned ?out) ''late_aircraft_ct'' = Inr e"
        "getcol (cleaned ?out) ''arr_del15'' = Inr del"
      and f: "getcol (cleaned ?out) ''cause_counts_exceed_delayed_flag'' = Inr (BoolCol flag)"
      and l: "length flag = nrows ?raw"
      and el: "\<forall>i<nrows ?raw.
                flag ! i =
                  np_gt demo_lib
                    (row_sum demo_lib [cell a i, cell b i, cell c i, cell d i, cell e i])
                    (cell del i)"
      by blast
    have "getcol (cleaned ?out) ''carrier_ct'' = Inr (I64Col [10, 1])"
      "getcol (cleaned ?out) ''weather_ct'' = Inr (I64Col [5, 0])"
      "getcol (cleaned ?out) ''nas_ct'' = Inr (NumCol [Fin 3, Fin 0])"
      "getcol (cleaned ?out) ''security_ct'' = Inr (I64Col [0, 0])"
      "getcol (cleaned ?out) ''late_aircraft_ct'' = Inr (I64Col [2, 0])"
      "getcol (cleaned ?out) ''arr_del15'' = Inr (I64Col [20, 0])"
      by code_simp+
    with g have v: "a = I64Col [10, 1]" "b = I64Col [5, 0]" "c = NumCol [Fin 3, Fin 0]"
      "d = I64Col [0, 0]" "e = I64Col [2, 0]" "del = I64Col [20, 0]"
      by simp_all
    from el n have "flag ! 0 = False" "flag ! 1 = True"
      by (simp_all add: v row_sum_def nan_to_zero_def i2f_def demo_lib_def)
    with f l n show ?thesis by auto
  qed
  have w2: "\<exists>flag. getcol (cleaned ?out2) ''cause_counts_exceed_delayed_flag'' = Inr (BoolCol flag) \<and>
          length flag = 2 \<and> flag ! 0 = False \<and> flag ! 1 = True"
  proof -
    from quality_flag_and_count [OF demo_lib_ok r2 h2 p2] obtain a b c d e del flag where
      g: "getcol (cleaned ?out2) ''carrier_ct'' = Inr a"
        "getcol (cleaned ?out2) ''weather_ct'' = Inr b"
        "getcol (cleaned ?out2) ''nas_ct'' = Inr c"
        "getcol (cleaned ?out2) ''security_ct'' = Inr d"
        "getcol (cleaned ?out2) ''late_aircraft_ct'' = Inr e"
        "getcol (cleaned ?out2) ''arr_del15'' = Inr del"
      and f: "getcol (cleaned ?out2) ''cause_counts_exceed_delayed_flag'' = Inr (BoolCol flag)"
      and l: "length flag = nrows ?raw2"
      and ex: "\<forall>i<nrows ?raw2. \<forall>x1 x2 x3 x4 x5 y.
              cell a i = I x1 \<and> cell b i = I x2 \<and> cell c i = I x3 \<and> cell d i = I x4 \<and>
              cell e i = I x5 \<and> cell del i = I y \<and>
              - (2 ^ 63) \<le> sint x1 + sint x2 + sint x3 + sint x4 + sint x5 \<and>
              sint x1 + sint x2 + sint x3 + sint x4 + sint x5 < 2 ^ 63 \<longrightarrow>
              flag ! i = (sint y < sint x1 + sint x2 + sint x3 + sint x4 + sint x5)"
      by blast
    have "getcol (cleaned ?out2) ''carrier_ct'' = Inr (I64Col [10, 1])"
      "getcol (cleaned ?out2) ''weather_ct'' = Inr (I64Col [5, 0])"
      "getcol (cleaned ?out2) ''nas_ct'' = Inr (I64Col [3, 0])"
      "getcol (cleaned ?out2) ''security_ct'' = Inr (I64Col [0, 0])"
      "getcol (cleaned ?out2) ''late_aircraft_ct'' = Inr (I64Col [2, 0])"
      "getcol (cleaned ?out2) ''arr_del15'' = Inr (I64Col [20, 0])"
      by code_simp+
    with g have v: "a = I64Col [10, 1]" "b = I64Col [5, 0]" "c = I64Col [3, 0]"
      "d = I64Col [0, 0]" "e = I64Col [2, 0]" "del = I64Col [20, 0]"
      by simp_all
    from ex n2 have "flag ! 0 = False" "flag ! 1 = True"
      by (simp_all add: v)
    with f l n2 show ?thesis by auto
  qed
  from demo_lib_ok r p h w1 h2 w2 show ?thesis by simp
qed

text \<open>
  Six int64 columns with one row whose five cause counts sum to \<open>2^63\<close>: the int64
  sum wraps around to \<open>- 2^63\<close>, the row is not flagged and the count is zero, although
  the sum of the counts is greater than \<open>arr_del15 = 0\<close>.
\<close>

theorem quality_sum_wraps:
  "run demo_lib 7
     [(''carrier_ct'', I64Col [9223372036854775807]), (''weather_ct'', I64Col [1]),
      (''nas_ct'', I64Col [0]), (''security_ct'', I64Col [0]), (''late_aircraft_ct'', I64Col
      [0]), (''arr_del15'', I64Col [0])] =
   Inr \<lparr>cleaned = [(''carrier_ct'', I64Col [9223372036854775807]), (''weather_ct'',
        I64Col [1]), (''nas_ct'', I64Col [0]), (''security_ct'', I64Col [0]),
        (''late_aircraft_ct'', I64Col [0]), (''arr_del15'', I64Col [0]),
        (''carrier_cause_share_ct'', NumCol [NaN]), (''weather_cause_share_ct'', NumCol [NaN]),
        (''nas_cause_share_ct'', NumCol [NaN]), (''security_cause_share_ct'', NumCol [NaN]),
        (''late_aircraft_cause_share_ct'', NumCol [NaN]), (''cause_counts_exceed_delayed_flag'',
        BoolCol [False])], sample = [(''carrier_ct'', I64Col [9223372036854775807]),
        (''weather_ct'', I64Col [1]), (''nas_ct'', I64Col [0]), (''security_ct'', I64Col [0]),
        (''late_aircraft_ct'', I64Col [0]), (''arr_del15'', I64Col [0]),
        (''carrier_cause_share_ct'', NumCol [NaN]), (''weather_cause_share_ct'', NumCol [NaN]),
        (''nas_cause_share_ct'', NumCol [NaN]), (''security_cause_share_ct'', NumCol [NaN]),
        (''late_aircraft_cause_share_ct'', NumCol [NaN]), (''cause_counts_exceed_delayed_flag'',
        BoolCol [False])], dictionary = [\<lparr>d_column = ''arr_del15'', d_dtype = Dint64,
        d_null_pct = Fin 0, d_example = Some (VInt 0)\<rparr>, \<lparr>d_column =
        ''carrier_cause_share_ct'', d_dtype = Dfloat64, d_null_pct = Fin 100, d_example =
        None\<rparr>, \<lparr>d_column = ''carrier_ct'', d_dtype = Dint64, d_null_pct = Fin 0,
        d_example = Some (VInt 9223372036854775807)\<rparr>, \<lparr>d_column =
        ''cause_counts_exceed_delayed_flag'', d_dtype = Dbool, d_null_pct = Fin 0, d_example =
        Some (VBool False)\<rparr>, \<lparr>d_column = ''late_aircraft_cause_share_ct'', d_dtype
        = Dfloat64, d_null_pct = Fin 100, d_example = None\<rparr>, \<lparr>d_column =
        ''late_aircraft_ct'', d_dtype = Dint64, d_null_pct = Fin 0, d_example = Some (VInt
        0)\<rparr>, \<lparr>d_column = ''nas_cause_share_ct'', d_dtype = Dfloat64, d_null_pct =
        Fin 100, d_example = None\<rparr>, \<lparr>d_column = ''nas_ct'', d_dtype = Dint64,
        d_null_pct = Fin 0, d_example = Some (VInt 0)\<rparr>, \<lparr>d_column =
        ''security_cause_share_ct'', d_dtype = Dfloat64, d_null_pct = Fin 100, d_example =
        None\<rparr>, \<lparr>d_column = ''security_ct'', d_dtype = Dint64, d_null_pct = Fin 0,
        d_example = Some (VInt 0)\<rparr>, \<lparr>d_column = ''weather_cause_share_ct'',
        d_dtype = Dfloat64, d_null_pct = Fin 100, d_example = None\<rparr>, \<lparr>d_column =
        ''weather_ct'', d_dtype = Dint64, d_null_pct = Fin 0, d_example = Some (VInt
        1)\<rparr>], checks = [(''rows_where_cause_counts_exceed_delayed'', 0)]\<rparr> \<and>
   sint (0 :: i64) <
     sint (9223372036854775807 :: i64) + sint (1 :: i64) + sint (0 :: i64) + sint (0 :: i64) +
       sint (0 :: i64) \<and>
   sint ((9223372036854775807 :: i64) + 1 + 0 + 0 + 0) = - 9223372036854775808"
proof (intro conjI)
  show "run demo_lib 7
     [(''carrier_ct'', I64Col [9223372036854775807]), (''weather_ct'', I64Col [1]),
      (''nas_ct'', I64Col [0]), (''security_ct'', I64Col [0]), (''late_aircraft_ct'', I64Col
      [0]), (''arr_del15'', I64Col [0])] =
   Inr \<lparr>cleaned = [(''carrier_ct'', I64Col [9223372036854775807]), (''weather_ct'',
        I64Col [1]), (''nas_ct'', I64Col [0]), (''security_ct'', I64Col [0]),
        (''late_aircraft_ct'', I64Col [0]), (''arr_del15'', I64Col [0]),
        (''carrier_cause_share_ct'', NumCol [NaN]), (''weather_cause_share_ct'', NumCol [NaN]),
        (''nas_cause_share_ct'', NumCol [NaN]), (''security_cause_share_ct'', NumCol [NaN]),
        (''late_aircraft_cause_share_ct'', NumCol [NaN]), (''cause_counts_exceed_delayed_flag'',
        BoolCol [False])], sample = [(''carrier_ct'', I64Col [9223372036854775807]),
        (''weather_ct'', I64Col [1]), (''nas_ct'', I64Col [0]), (''security_ct'', I64Col [0]),
        (''late_aircraft_ct'', I64Col [0]), (''arr_del15'', I64Col [0]),
        (''carrier_cause_share_ct'', NumCol [NaN]), (''weather_cause_share_ct'', NumCol [NaN]),
        (''nas_cause_share_ct'', NumCol [NaN]), (''security_cause_share_ct'', NumCol [NaN]),
        (''late_aircraft_cause_share_ct'', NumCol [NaN]), (''cause_counts_exceed_delayed_flag'',
        BoolCol [False])], dictionary = [\<lparr>d_column = ''arr_del15'', d_dtype = Dint64,
        d_null_pct = Fin 0, d_example = Some (VInt 0)\<rparr>, \<lparr>d_column =
        ''carrier_cause_share_ct'', d_dtype = Dfloat64, d_null_pct = Fin 100, d_example =
        None\<rparr>, \<lparr>d_column = ''carrier_ct'', d_dtype = Dint64, d_null_pct = Fin 0,
        d_example = Some (VInt 9223372036854775807)\<rparr>, \<lparr>d_column =
        ''cause_counts_exceed_delayed_flag'', d_dtype = Dbool, d_null_pct = Fin 0, d_example =
        Some (VBool False)\<rparr>, \<lparr>d_column = ''late_aircraft_cause_share_ct'', d_dtype
        = Dfloat64, d_null_pct = Fin 100, d_example = None\<rparr>, \<lparr>d_column =
        ''late_aircraft_ct'', d_dtype = Dint64, d_null_pct = Fin 0, d_example = Some (VInt
        0)\<rparr>, \<lparr>d_column = ''nas_cause_share_ct'', d_dtype = Dfloat64, d_null_pct =
        Fin 100, d_example = None\<rparr>, \<lparr>d_column = ''nas_ct'', d_dtype = Dint64,
        d_null_pct = Fin 0, d_example = Some (VInt 0)\<rparr>, \<lparr>d_column =
        ''security_cause_share_ct'', d_dtype = Dfloat64, d_null_pct = Fin 100, d_example =
        None\<rparr>, \<lparr>d_column = ''security_ct'', d_dtype = Dint64, d_null_pct = Fin 0,
        d_example = Some (VInt 0)\<rparr>, \<lparr>d_column = ''weather_cause_share_ct'',
        d_dtype = Dfloat64, d_null_pct = Fin 100, d_example = None\<rparr>, \<lparr>d_column =
        ''weather_ct'', d_dtype = Dint64, d_null_pct = Fin 0, d_example = Some (VInt
        1)\<rparr>], checks = [(''rows_where_cause_counts_exceed_delayed'', 0)]\<rparr>"
    by code_simp
  show "sint (0 :: i64) <
     sint (9223372036854775807 :: i64) + sint (1 :: i64) + sint (0 :: i64) + sint (0 :: i64) +
       sint (0 :: i64)"
    by simp
  show "sint ((9223372036854775807 :: i64) + 1 + 0 + 0 + 0) = - 9223372036854775808"
    by simp
qed

text \<open>
  C6 (as stated it fails: a rule that is skipped leaves the frame as it is, so a column
  of the input that already carries the derived label stays in the output). Amended:
  a rule one of whose source columns is absent raises no error and returns the frame
  unchanged; and when a source column of the rule is absent from the normalized schema,
  a derived label of the rule is in the cleaned table only if the normalized input
  already had a column of that name.
\<close>

theorem skipped_rule_derives_nothing:
  assumes "(reqs, outs, p) \<in> set (kpi_rules L)"
  shows "(\<not> set reqs \<subseteq> set (columns df) \<longrightarrow> p df = Inr df) \<and>
         (\<not> set reqs \<subseteq> set (columns (rename_columns raw)) \<and> run L entropy raw = Inr out \<and>
          c \<in> set outs \<and> c \<notin> set (columns (rename_columns raw)) \<longrightarrow>
            c \<notin> set (columns (cleaned out)))"
proof (intro conjI impI)
  have r: "(reqs, outs, p) \<in> set (all_passes L)" using assms by (simp add: all_passes_def)
  {
    assume "\<not> set reqs \<subseteq> set (columns df)"
    then show "p df = Inr df" by (rule pass_skip [OF r])
  }
  let ?N = "set (columns (rename_columns raw))"
  assume a: "\<not> set reqs \<subseteq> ?N \<and> run L entropy raw = Inr out \<and> c \<in> set outs \<and> c \<notin> ?N"
  show "c \<notin> set (columns (cleaned out))"
  proof
    assume "c \<in> set (columns (cleaned out))"
    with run_columns [of L entropy raw out] a have "c \<in> fired L ?N" by auto
    then obtain r' where r': "r' \<in> set (all_passes L)" "c \<in> set (fst (snd r'))" "set (fst r') \<subseteq> ?N"
      by (auto simp: fired_def)
    have "reqs = fst r'"
      using rule_outs_unique [OF r, of "fst r'" "fst (snd r')" "snd (snd r')" c] r' a by simp
    with r'(3) a show False by simp
  qed
qed

theorem skipped_rule_derives_nothing_witness:
  "([''arr_del15'', ''arr_flights''], [''delayed_rate''], derive_delayed_rate demo_lib)
     \<in> set (kpi_rules demo_lib) \<and>
   \<not> set [''arr_del15'', ''arr_flights''] \<subseteq> set (columns (rename_columns [(''Arr Del15'', NumCol [Fin 1])])) \<and>
   derive_delayed_rate demo_lib [(''arr_del15'', NumCol [Fin 1])] = Inr [(''arr_del15'', NumCol [Fin 1])] \<and>
   run demo_lib 7 [(''Arr Del15'', NumCol [Fin 1])] =
     Inr \<lparr>cleaned = [(''arr_del15'', NumCol [Fin 1])],
          sample = [(''arr_del15'', NumCol [Fin 1])],
          dictionary = [\<lparr>d_column = ''arr_del15'', d_dtype = Dfloat64, d_null_pct = Fin 0,
                          d_example = Some (VNum (Fin 1))\<rparr>],
          checks = []\<rparr> \<and>
   ''delayed_rate'' \<notin> set (columns [(''arr_del15'', NumCol [Fin 1])])"
proof -
  let ?raw = "[(''Arr Del15'', NumCol [Fin 1])]"
  let ?df = "[(''arr_del15'', NumCol [Fin 1])]"
  let ?out = "\<lparr>cleaned = ?df, sample = ?df,
          dictionary = [\<lparr>d_column = ''arr_del15'', d_dtype = Dfloat64, d_null_pct = Fin 0,
                          d_example = Some (VNum (Fin 1))\<rparr>],
          checks = []\<rparr>"
  have m: "([''arr_del15'', ''arr_flights''], [''delayed_rate''], derive_delayed_rate demo_lib)
             \<in> set (kpi_rules demo_lib)"
    by (simp add: kpi_rules_def)
  have n: "rename_columns ?raw = ?df" by code_simp
  have a: "\<not> set [''arr_del15'', ''arr_flights''] \<subseteq> set (columns (rename_columns ?raw))"
    unfolding n by (simp add: columns_def)
  have a': "\<not> set [''arr_del15'', ''arr_flights''] \<subseteq> set (columns ?df)"
    by (simp add: columns_def)
  have h: "run demo_lib 7 ?raw = Inr ?out" by code_simp
  have c: "''delayed_rate'' \<notin> set (columns (rename_columns ?raw))"
    unfolding n by (simp add: columns_def)
  from skipped_rule_derives_nothing [OF m, of ?df ?raw 7 ?out "''delayed_rate''"] a a' h c
  have "derive_delayed_rate demo_lib ?df = Inr ?df" "''delayed_rate'' \<notin> set (columns (cleaned ?out))"
    by simp_all
  with m a h show ?thesis by simp
qed

text \<open>
  An input whose only column is \<open>delayed_rate\<close>: the sources of the rule are absent
  and the derived label is in the cleaned table.
\<close>

theorem derived_label_present_without_sources:
  "\<not> set [''arr_del15'', ''arr_flights''] \<subseteq> set (columns (rename_columns [(''delayed_rate'', NumCol [Fin 9])])) \<and>
   run demo_lib 7 [(''delayed_rate'', NumCol [Fin 9])] =
     Inr \<lparr>cleaned = [(''delayed_rate'', NumCol [Fin 9])],
          sample = [(''delayed_rate'', NumCol [Fin 9])],
          dictionary = [\<lparr>d_column = ''delayed_rate'', d_dtype = Dfloat64, d_null_pct = Fin 0,
                          d_example = Some (VNum (Fin 9))\<rparr>],
          checks = []\<rparr> \<and>
   ''delayed_rate'' \<in> set (columns [(''delayed_rate'', NumCol [Fin 9])])"
proof -
  have "rename_columns [(''delayed_rate'', NumCol [Fin 9])] = [(''delayed_rate'', NumCol [Fin 9])]"
    by code_simp
  moreover have "run demo_lib 7 [(''delayed_rate'', NumCol [Fin 9])] =
     Inr \<lparr>cleaned = [(''delayed_rate'', NumCol [Fin 9])],
          sample = [(''delayed_rate'', NumCol [Fin 9])],
          dictionary = [\<lparr>d_column = ''delayed_rate'', d_dtype = Dfloat64, d_null_pct = Fin 0,
                          d_example = Some (VNum (Fin 9))\<rparr>],
          checks = []\<rparr>"
    by code_simp
  ultimately show ?thesis by (simp add: columns_def)
qed

text \<open>
  C7. When both coercion loops have run, every designated count or delay-minute column
  that the frame had is numeric: an int64 column is unchanged (it has no missing cell),
  and any other column has become a float64 column of the same length without NaN, in
  which every cell that was missing or did not parse as a number is zero.
\<close>

theorem coerced_columns_numeric:
  assumes "coerce_counts L df = Inr df1" and "coerce_year_month L df1 = Inr df2"
    and "c \<in> set (count_cols @ delay_min_cols)" and "c \<in> set (columns df)"
  shows "\<exists>col. getcol df c = Inr col \<and>
           (case col of
              I64Col ws \<Rightarrow> getcol df2 c = Inr (I64Col ws)
            | _ \<Rightarrow> (\<exists>xs. getcol df2 c = Inr (NumCol xs) \<and> length xs = col_len col \<and>
                      NaN \<notin> set xs \<and>
                      (\<forall>i<length xs. unparseable L col i \<longrightarrow> xs ! i = Fin 0)))"
proof -
  from coerce_loop_value [OF assms(1) [unfolded coerce_counts_def] designated_distinct assms(3,4)]
  obtain col n f where col: "getcol df c = Inr col" and n: "to_numeric L col = Inr n"
    and f: "fillna0 n = Inr f" and v: "getcol df1 c = Inr f"
    by blast
  have "c \<notin> {''year'', ''month''}"
    using assms(3) by (auto simp: count_cols_def delay_min_cols_def)
  then have "getcol df2 c = getcol df1 c"
    by (rule effect_frame [OF coerce_year_month_effect [OF assms(2)]])
  then have g: "getcol df2 c = Inr f" using v by simp
  from to_numeric_cases [OF n] show ?thesis
  proof (elim disjE exE conjE)
    fix ws assume w: "col = I64Col ws" "n = I64Col ws"
    then have "f = I64Col ws" using f by (simp add: fillna0_I64Col)
    then show ?thesis using col g w by simp
  next
    fix ys assume ni: "\<forall>ws. col \<noteq> I64Col ws" and ys: "n = NumCol ys"
    let ?xs = "map (\<lambda>x. if x = NaN then Fin 0 else x) ys"
    have fx: "f = NumCol ?xs" using f ys by (simp add: fillna0_NumCol)
    have l: "length ?xs = col_len col" using to_numeric_len [OF n] ys by simp
    have z: "\<forall>i<length ?xs. unparseable L col i \<longrightarrow> ?xs ! i = Fin 0"
      using to_numeric_nan [OF n [unfolded ys]] by simp
    have nn: "NaN \<notin> set ?xs" by auto
    have "\<exists>xs. getcol df2 c = Inr (NumCol xs) \<and> length xs = col_len col \<and>
                      NaN \<notin> set xs \<and>
                      (\<forall>i<length xs. unparseable L col i \<longrightarrow> xs ! i = Fin 0)"
      using g fx l z nn by blast
    then show ?thesis using col ni by (cases col) auto
  qed
qed

theorem coerced_columns_numeric_witness:
  "coerce_counts demo_lib
     [(''arr_flights'', ObjCol [Some ''12'', Some ''x'', None]), (''arr_del15'', I64Col [3, 4, 5]),
      (''year'', NumCol [Fin 2023, Fin 2023, NaN])] =
     Inr [(''arr_flights'', NumCol [Fin 12, Fin 0, Fin 0]), (''arr_del15'', I64Col [3, 4, 5]),
          (''year'', NumCol [Fin 2023, Fin 2023, NaN])] \<and>
   coerce_year_month demo_lib
     [(''arr_flights'', NumCol [Fin 12, Fin 0, Fin 0]), (''arr_del15'', I64Col [3, 4, 5]),
      (''year'', NumCol [Fin 2023, Fin 2023, NaN])] =
     Inr [(''arr_flights'', NumCol [Fin 12, Fin 0, Fin 0]), (''arr_del15'', I64Col [3, 4, 5]),
          (''year'', IntCol [Some 2023, Some 2023, None])] \<and>
   ''arr_flights'' \<in> set (count_cols @ delay_min_cols) \<and>
   ''arr_del15'' \<in> set (count_cols @ delay_min_cols) \<and>
   ''arr_flights'' \<in> set (columns [(''arr_flights'', ObjCol [Some ''12'', Some ''x'', None]),
                                   (''arr_del15'', I64Col [3, 4, 5]),
                                   (''year'', NumCol [Fin 2023, Fin 2023, NaN])]) \<and>
   ''arr_del15'' \<in> set (columns [(''arr_flights'', ObjCol [Some ''12'', Some ''x'', None]),
                                 (''arr_del15'', I64Col [3, 4, 5]),
                                 (''year'', NumCol [Fin 2023, Fin 2023, NaN])]) \<and>
   (\<exists>xs. getcol [(''arr_flights'', NumCol [Fin 12, Fin 0, Fin 0]), (''arr_del15'', I64Col [3, 4, 5]),
                  (''year'', IntCol [Some 2023, Some 2023, None])] ''arr_flights'' = Inr (NumCol xs) \<and>
         length xs = 3 \<and> NaN \<notin> set xs \<and> xs ! 1 = Fin 0 \<and> xs ! 2 = Fin 0) \<and>
   getcol [(''arr_flights'', NumCol [Fin 12, Fin 0, Fin 0]), (''arr_del15'', I64Col [3, 4, 5]),
           (''year'', IntCol [Some 2023, Some 2023, None])] ''arr_del15'' = Inr (I64Col [3, 4, 5])"
proof -
  let ?df = "[(''arr_flights'', ObjCol [Some ''12'', Some ''x'', None]), (''arr_del15'', I64Col [3, 4, 5]),
              (''year'', NumCol [Fin 2023, Fin 2023, NaN])]"
  let ?df1 = "[(''arr_flights'', NumCol [Fin 12, Fin 0, Fin 0]), (''arr_del15'', I64Col [3, 4, 5]),
               (''year'', NumCol [Fin 2023, Fin 2023, NaN])]"
  let ?df2 = "[(''arr_flights'', NumCol [Fin 12, Fin 0, Fin 0]), (''arr_del15'', I64Col [3, 4, 5]),
               (''year'', IntCol [Some 2023, Some 2023, None])]"
  have h1: "coerce_counts demo_lib ?df = Inr ?df1" by code_simp
  have h2: "coerce_year_month demo_lib ?df1 = Inr ?df2" by code_simp
  have h3: "''arr_flights'' \<in> set (count_cols @ delay_min_cols)" by (simp add: count_cols_def)
  have h3': "''arr_del15'' \<in> set (count_cols @ delay_min_cols)" by (simp add: count_cols_def)
  have h4: "''arr_flights'' \<in> set (columns ?df)" by (simp add: columns_def)
  have h4': "''arr_del15'' \<in> set (columns ?df)" by (simp add: columns_def)
  have c: "getcol ?df ''arr_flights'' = Inr (ObjCol [Some ''12'', Some ''x'', None])" by code_simp
  have c': "getcol ?df ''arr_del15'' = Inr (I64Col [3, 4, 5])" by code_simp
  from coerced_columns_numeric [OF h1 h2 h3 h4] c obtain xs where
    g: "getcol ?df2 ''arr_flights'' = Inr (NumCol xs)"
    and l: "length xs = col_len (ObjCol [Some ''12'', Some ''x'', None])" and n: "NaN \<notin> set xs"
    and z: "\<forall>i<length xs. unparseable demo_lib (ObjCol [Some ''12'', Some ''x'', None]) i \<longrightarrow>
              xs ! i = Fin 0"
    by auto
  have u: "unparseable demo_lib (ObjCol [Some ''12'', Some ''x'', None]) 1"
    "unparseable demo_lib (ObjCol [Some ''12'', Some ''x'', None]) 2"
    by code_simp+
  have l3: "length xs = 3" using l by simp
  with z u have x: "xs ! 1 = Fin 0" "xs ! 2 = Fin 0" by auto
  from coerced_columns_numeric [OF h1 h2 h3' h4'] c'
  have g': "getcol ?df2 ''arr_del15'' = Inr (I64Col [3, 4, 5])" by auto
  from h1 h2 h3 h3' h4 h4' g l3 n x g' show ?thesis by blast
qed

text \<open>
  C8. For an input table of \<open>n\<close> rows on which the script reaches the write step, the
  sample artifact has exactly \<open>min n 500\<close> rows (the sampler returning as many rows as
  it is asked for).
\<close>

theorem sample_has_min_rows:
  assumes "lib_ok L" and "rect raw" and "run L entropy raw = Inr out"
  shows "nrows (sample out) = min (nrows raw) 500"
proof -
  let ?df = "cleaned out"
  let ?k = "min (nrows ?df) 500"
  from run_Inr [OF assms(3)]
  have s: "df_sample L entropy ?k (Some 42) ?df = Inr (sample out)" by blast
  then have smp: "sample out = take_rows (rng_choice L 42 (nrows ?df) ?k) ?df"
    by (auto simp: df_sample_def split: if_splits)
  have len: "length (rng_choice L 42 (nrows ?df) ?k) = ?k"
    using assms(1) by (simp add: lib_ok_def)
  have n: "nrows ?df = nrows raw" using run_shape [OF assms(3,1,2)] by simp
  show ?thesis
  proof (cases "?df = []")
    case True
    then show ?thesis using smp n by (simp add: take_rows_def nrows_def)
  next
    case False
    then show ?thesis using smp len n by (simp add: nrows_take_rows)
  qed
qed

theorem sample_has_min_rows_witness:
  "run demo_lib 7 [(''carrier'', ObjCol [Some ''AA'', Some ''DL'', None, Some ''UA''])] =
     Inr \<lparr>cleaned = [(''carrier'', ObjCol [Some ''AA'', Some ''DL'', None, Some ''UA''])],
          sample = [(''carrier'', ObjCol [None, Some ''UA'', Some ''AA'', Some ''DL''])],
          dictionary = [\<lparr>d_column = ''carrier'', d_dtype = Dobject, d_null_pct = Fin 25,
                          d_example = Some (VStr ''AA'')\<rparr>],
          checks = []\<rparr> \<and>
   nrows [(''carrier'', ObjCol [None, Some ''UA'', Some ''AA'', Some ''DL''])] =
     min (nrows [(''carrier'', ObjCol [Some ''AA'', Some ''DL'', None, Some ''UA''])]) 500"
proof -
  let ?raw = "[(''carrier'', ObjCol [Some ''AA'', Some ''DL'', None, Some ''UA''])]"
  have r: "rect ?raw" by (simp add: rect_def nrows_def)
  have h: "run demo_lib 7 ?raw =
     Inr \<lparr>cleaned = [(''carrier'', ObjCol [Some ''AA'', Some ''DL'', None, Some ''UA''])],
          sample = [(''carrier'', ObjCol [None, Some ''UA'', Some ''AA'', Some ''DL''])],
          dictionary = [\<lparr>d_column = ''carrier'', d_dtype = Dobject, d_null_pct = Fin 25,
                          d_example = Some (VStr ''AA'')\<rparr>],
          checks = []\<rparr>"
    by code_simp
  from sample_has_min_rows [OF demo_lib_ok r h] h show ?thesis by simp
qed

text \<open>
  C9. The artifacts of a run (cleaned table, sample, dictionary) are a function of the
  input table alone: they do not depend on the entropy of the run, because the sample
  is drawn with the fixed seed 42.
\<close>

theorem run_same_for_all_entropy: "run L e1 raw = run L e2 raw"
  by (simp add: run_def df_sample_def)

text \<open>
  C10 (as stated it fails: a pass assigns to its derived label, and the frame after
  this theorem has a column of that label whose values the pass replaces). Amended, for
  every pass of sections 4 and 5 and every frame: the frame after the pass is the columns of the frame before it, with the same
  labels in the same order, followed by new columns; every column whose label is not
  one the pass derives is unchanged at its position; the new columns carry derived
  labels that the frame did not have; when the frame had no column with a derived
  label, the frame before the pass is a prefix of the frame after it; and a rectangular
  frame stays rectangular with the same number of rows.
\<close>

theorem passes_keep_other_columns:
  assumes "(reqs, outs, p) \<in> set (all_passes L)" and "p df = Inr df'"
  shows "\<exists>kept new. df' = kept @ new \<and> columns kept = columns df \<and>
           (\<forall>i<length df. fst (df ! i) \<notin> set outs \<longrightarrow> kept ! i = df ! i) \<and>
           set (columns new) \<subseteq> set outs - set (columns df) \<and>
           (set outs \<inter> set (columns df) = {} \<longrightarrow> kept = df) \<and>
           (lib_ok L \<and> rect df \<longrightarrow> rect df' \<and> nrows df' = nrows df)"
proof -
  note e = pass_effect [OF assms]
  then have "(assign1 (set outs))\<^sup>*\<^sup>* df df'" by (simp add: effect_def)
  from assign_kept [OF this] obtain kept new where k: "df' = kept @ new"
    and lab: "columns kept = columns df"
    and same: "\<forall>i<length df. fst (df ! i) \<notin> set outs \<longrightarrow> kept ! i = df ! i"
    and sub: "set (columns new) \<subseteq> set outs - set (columns df)"
    by blast
  have len: "length kept = length df"
    using lab by (simp add: columns_def) (metis length_map)
  have "kept = df" if d: "set outs \<inter> set (columns df) = {}"
  proof (rule nth_equalityI [OF len])
    fix i assume "i < length kept"
    then have i: "i < length df" using len by simp
    then have "fst (df ! i) \<in> set (columns df)" by (simp add: columns_def)
    with d have "fst (df ! i) \<notin> set outs" by auto
    with same i show "kept ! i = df ! i" by simp
  qed
  moreover have "lib_ok L \<and> rect df \<longrightarrow> rect df' \<and> nrows df' = nrows df"
    using effect_rect [OF e] by simp
  ultimately show ?thesis using k lab same sub by blast
qed

theorem passes_keep_other_columns_witness:
  "([''arr_del15'', ''arr_flights''], [''delayed_rate''], derive_delayed_rate demo_lib)
     \<in> set (all_passes demo_lib) \<and>
   derive_delayed_rate demo_lib
     [(''arr_del15'', I64Col [1]), (''delayed_rate'', NumCol [Fin 9]), (''arr_flights'', I64Col [2])] =
     Inr [(''arr_del15'', I64Col [1]), (''delayed_rate'', NumCol [Fin (1 / 2)]),
          (''arr_flights'', I64Col [2])] \<and>
   lib_ok demo_lib \<and>
   rect [(''arr_del15'', I64Col [1]), (''delayed_rate'', NumCol [Fin 9]), (''arr_flights'', I64Col [2])] \<and>
   (\<exists>kept new.
      [(''arr_del15'', I64Col [1]), (''delayed_rate'', NumCol [Fin (1 / 2)]),
       (''arr_flights'', I64Col [2])] = kept @ new \<and>
      columns kept = [''arr_del15'', ''delayed_rate'', ''arr_flights''] \<and>
      kept ! 0 = (''arr_del15'', I64Col [1]) \<and> kept ! 2 = (''arr_flights'', I64Col [2]) \<and>
      set (columns new) \<subseteq> {''delayed_rate''} - {''arr_del15'', ''delayed_rate'', ''arr_flights''}) \<and>
   nrows [(''arr_del15'', I64Col [1]), (''delayed_rate'', NumCol [Fin (1 / 2)]),
          (''arr_flights'', I64Col [2])] = 1 \<and>
   derive_delayed_rate demo_lib [(''arr_del15'', I64Col [1]), (''arr_flights'', I64Col [2])] =
     Inr [(''arr_del15'', I64Col [1]), (''arr_flights'', I64Col [2]),
          (''delayed_rate'', NumCol [Fin (1 / 2)])] \<and>
   set [''delayed_rate''] \<inter> set (columns [(''arr_del15'', I64Col [1]), (''arr_flights'', I64Col [2])]) = {} \<and>
   (\<exists>new. [(''arr_del15'', I64Col [1]), (''arr_flights'', I64Col [2]),
            (''delayed_rate'', NumCol [Fin (1 / 2)])] =
          [(''arr_del15'', I64Col [1]), (''arr_flights'', I64Col [2])] @ new \<and>
          set (columns new) \<subseteq> {''delayed_rate''})"
proof -
  let ?df = "[(''arr_del15'', I64Col [1]), (''delayed_rate'', NumCol [Fin 9]),
              (''arr_flights'', I64Col [2])]"
  let ?df' = "[(''arr_del15'', I64Col [1]), (''delayed_rate'', NumCol [Fin (1 / 2)]),
               (''arr_flights'', I64Col [2])]"
  let ?d2 = "[(''arr_del15'', I64Col [1]), (''arr_flights'', I64Col [2])]"
  let ?d2' = "[(''arr_del15'', I64Col [1]), (''arr_flights'', I64Col [2]),
               (''delayed_rate'', NumCol [Fin (1 / 2)])]"
  have m: "([''arr_del15'', ''arr_flights''], [''delayed_rate''], derive_delayed_rate demo_lib)
             \<in> set (all_passes demo_lib)"
    by (simp add: all_passes_def kpi_rules_def)
  have e: "derive_delayed_rate demo_lib ?df = Inr ?df'" by code_simp
  have e2: "derive_delayed_rate demo_lib ?d2 = Inr ?d2'" by code_simp
  have r: "rect ?df" by (simp add: rect_def nrows_def)
  have d: "set [''delayed_rate''] \<inter> set (columns ?d2) = {}" by (simp add: columns_def)
  from passes_keep_other_columns [OF m e] obtain kept new where
    k: "?df' = kept @ new" "columns kept = columns ?df"
      "\<forall>i<length ?df. fst (?df ! i) \<notin> set [''delayed_rate''] \<longrightarrow> kept ! i = ?df ! i"
      "set (columns new) \<subseteq> set [''delayed_rate''] - set (columns ?df)"
    and n: "lib_ok demo_lib \<and> rect ?df \<longrightarrow> rect ?df' \<and> nrows ?df' = nrows ?df"
    by blast
  from k(3) have k0: "kept ! 0 = (''arr_del15'', I64Col [1])"
    and k2: "kept ! 2 = (''arr_flights'', I64Col [2])"
    by simp_all
  from n demo_lib_ok r have n1: "nrows ?df' = 1" by (simp add: nrows_def)
  from passes_keep_other_columns [OF m e2] d obtain new2 where
    k': "?d2' = ?d2 @ new2" "set (columns new2) \<subseteq> set [''delayed_rate''] - set (columns ?d2)"
    by blast
  have p1: "\<exists>kept new. ?df' = kept @ new \<and>
      columns kept = [''arr_del15'', ''delayed_rate'', ''arr_flights''] \<and>
      kept ! 0 = (''arr_del15'', I64Col [1]) \<and> kept ! 2 = (''arr_flights'', I64Col [2]) \<and>
      set (columns new) \<subseteq> {''delayed_rate''} - {''arr_del15'', ''delayed_rate'', ''arr_flights''}"
    using k(1,2,4) k0 k2 by (intro exI [of _ kept] exI [of _ new]) (simp add: columns_def)
  have p2: "\<exists>new. ?d2' = ?d2 @ new \<and> set (columns new) \<subseteq> {''delayed_rate''}"
    using k' by (intro exI [of _ new2]) auto
  from m e demo_lib_ok r p1 n1 e2 d p2 show ?thesis by blast
qed

text \<open>
  A frame that already has a \<open>delayed_rate\<close> column: the pass replaces its values.
\<close>

theorem existing_column_overwritten:
  "derive_delayed_rate demo_lib
     [(''arr_del15'', I64Col [1]), (''arr_flights'', I64Col [2]),
      (''delayed_rate'', NumCol [Fin 9])] =
   Inr [(''arr_del15'', I64Col [1]), (''arr_flights'', I64Col [2]),
        (''delayed_rate'', NumCol [Fin (1 / 2)])]"
  by code_simp

end
